theory Spec2Isabelle
  imports Main "HOL-Library.Word"
begin

section \<open>Values of the execution substrate\<close>

text \<open>
  The four contracts are Algorand Python (\<^verbatim>\<open>algopy\<close>) programs.  Their numbers are
  \<^verbatim>\<open>UInt64\<close>: unsigned 64-bit values whose \<^verbatim>\<open>+\<close>, \<^verbatim>\<open>-\<close> and \<^verbatim>\<open>*\<close> fail the whole
  call on overflow or underflow, and whose \<^verbatim>\<open>//\<close> fails on a zero divisor.  A failed
  \<^verbatim>\<open>assert\<close> fails the call in the same way.  A failed call commits nothing: it is
  modelled as \<open>Inl\<close> of the error, and the caller keeps the state it had.

  An account is a 32-byte address; only equality of accounts matters, so they are
  numbered.  Where two structs of the source have a field of the same name, the field
  carries the struct's initial (\<open>g_creator\<close>, \<open>c_creator\<close>, \<open>g_deadline\<close>, \<open>c_deadline\<close>), and
  an argument named like a field is primed (\<open>total_amount'\<close>).

  A submitted inner transaction is recorded in the trace of the contract.  Whether the
  substrate accepts it (enough funds in the program's custody, the receiver holding the
  asset) is not decided by the contract's code: the model describes the calls whose
  inner transactions the substrate accepts.
\<close>

type_synonym u64 = "64 word"

type_synonym account = nat

datatype error =
    Arith_overflow
  | Arith_underflow
  | Div_by_zero
  | Payment_must_be_to_app
  | Amount_must_be_positive
  | Insufficient_balance
  | Only_creator_can_verify
  | Group_not_found
  | Need_at_least_2_members
  | Max_50_members_per_group
  | Deadline_must_be_in_future
  | Max_10_percent_penalty
  | Group_already_settled
  | Pay_to_app
  | Insufficient_payment
  | Only_creator_can_settle
  | Not_fully_funded
  | Already_settled
  | Goal_must_be_positive
  | At_least_1_milestone
  | Max_10_milestones
  | Campaign_not_found
  | Campaign_not_active
  | Only_creator
  | Not_fully_funded_yet
  | All_milestones_released
  | Deadline_not_passed
  | Campaign_was_funded_no_refund
  | No_donation_found
  | Nothing_to_refund
  | Must_have_at_least_1_ticket
  | Max_100000_tickets
  | End_must_be_after_start
  | Event_not_found
  | Sold_out
  | Incorrect_payment_amount
  | Ticket_not_found
  | Only_organizer_can_mark_used
  | Ticket_already_used
  | Only_organizer
  | No_revenue_to_withdraw

definition u64_add :: "u64 \<Rightarrow> u64 \<Rightarrow> error + u64" where
  "u64_add a b = (if unat a + unat b < 2 ^ 64 then Inr (a + b) else Inl Arith_overflow)"

definition u64_sub :: "u64 \<Rightarrow> u64 \<Rightarrow> error + u64" where
  "u64_sub a b = (if b \<le> a then Inr (a - b) else Inl Arith_underflow)"

definition u64_mul :: "u64 \<Rightarrow> u64 \<Rightarrow> error + u64" where
  "u64_mul a b = (if unat a * unat b < 2 ^ 64 then Inr (a * b) else Inl Arith_overflow)"

definition u64_floordiv :: "u64 \<Rightarrow> u64 \<Rightarrow> error + u64" where
  "u64_floordiv a b = (if b = 0 then Inl Div_by_zero else Inr (a div b))"

text \<open>Sequencing of fallible steps: the first failure ends the call.\<close>

definition bind :: "error + 'a \<Rightarrow> ('a \<Rightarrow> error + 'b) \<Rightarrow> error + 'b" where
  "bind m f = (case m of Inl e \<Rightarrow> Inl e | Inr x \<Rightarrow> f x)"

text \<open>\<^verbatim>\<open>BoxMap.get(key, default=d)\<close>.\<close>

definition box_get :: "('k \<rightharpoonup> 'v) \<Rightarrow> 'k \<Rightarrow> 'v \<Rightarrow> 'v" where
  "box_get m k d = (case m k of None \<Rightarrow> d | Some v \<Rightarrow> v)"

text \<open>
  What a call reads from its transaction group: \<^verbatim>\<open>Txn.sender\<close>,
  \<^verbatim>\<open>Global.current_application_address\<close>, \<^verbatim>\<open>Global.creator_address\<close> and
  \<^verbatim>\<open>Global.latest_timestamp\<close>; and the grouped payment transaction of a funds-in call.
\<close>

record txn_ctx =
  txn_sender :: account
  current_application_address :: account
  creator_address :: account
  latest_timestamp :: u64

record payment_txn =
  receiver :: account
  amount :: u64

text \<open>
  Inner transactions, with the fields the contracts set: a payment (receiver, amount,
  fee), an asset creation (the id the substrate gave the new asset), an asset transfer
  (asset, receiver, amount) and an asset freeze (asset, account, frozen).
\<close>

datatype itxn =
    Payment account u64 u64
  | Asset_config u64
  | Asset_transfer u64 account u64
  | Asset_freeze u64 account bool

text \<open>
  The effects of a call in program order: a write to a box (\<open>'w\<close> names the box and
  the value written) or a submitted inner transaction.
\<close>

datatype 'w effect = Box_write 'w | Inner_txn itxn

fun paid_amount :: "'w effect \<Rightarrow> nat" where
  "paid_amount (Inner_txn (Payment r a f)) = unat a"
| "paid_amount _ = 0"

definition paid_out :: "'w effect list \<Rightarrow> nat" where
  "paid_out es = sum_list (map paid_amount es)"

fun payments :: "'w effect list \<Rightarrow> (account \<times> u64) list" where
  "payments [] = []"
| "payments (Inner_txn (Payment r a f) # es) = (r, a) # payments es"
| "payments (e # es) = payments es"

section \<open>The payment contract (\<^verbatim>\<open>payment/contract.py\<close>)\<close>

datatype payment_write =
    Put_balance account u64
  | Put_campus_id account string
  | Put_campus_verified account bool

record payment_contract =
  balances :: "account \<rightharpoonup> u64"
  campus_verified :: "account \<rightharpoonup> bool"
  campus_id :: "account \<rightharpoonup> string"
  total_volume :: u64
  total_transactions :: u64
  active_users :: u64
  pay_trace :: "payment_write effect list"

definition payment_init :: payment_contract where
  "payment_init = \<lparr> balances = Map.empty, campus_verified = Map.empty, campus_id = Map.empty,
     total_volume = 0, total_transactions = 0, active_users = 0, pay_trace = [] \<rparr>"

definition put_balance :: "account \<Rightarrow> u64 \<Rightarrow> payment_contract \<Rightarrow> payment_contract" where
  "put_balance k v s =
     s\<lparr> balances := (balances s)(k \<mapsto> v), pay_trace := pay_trace s @ [Box_write (Put_balance k v)] \<rparr>"

definition pay_submit :: "itxn \<Rightarrow> payment_contract \<Rightarrow> payment_contract" where
  "pay_submit t s = s\<lparr> pay_trace := pay_trace s @ [Inner_txn t] \<rparr>"

definition deposit :: "txn_ctx \<Rightarrow> payment_txn \<Rightarrow> payment_contract \<Rightarrow> error + payment_contract" where
  "deposit ctx payment s =
    (if receiver payment \<noteq> current_application_address ctx then Inl Payment_must_be_to_app
     else if \<not> amount payment > 0 then Inl Amount_must_be_positive
     else
       let sender = txn_sender ctx;
           current_balance = box_get (balances s) sender 0
       in
       bind (u64_add current_balance (amount payment)) (\<lambda>new_balance.
       let s1 = put_balance sender new_balance s in
       bind (if current_balance = 0 then u64_add (active_users s1) 1 else Inr (active_users s1)) (\<lambda>au.
       bind (u64_add (total_volume s1) (amount payment)) (\<lambda>tv.
       bind (u64_add (total_transactions s1) 1) (\<lambda>tt.
       Inr (s1\<lparr> active_users := au, total_volume := tv, total_transactions := tt \<rparr>))))))"

definition send_money ::
  "txn_ctx \<Rightarrow> account \<Rightarrow> u64 \<Rightarrow> string \<Rightarrow> payment_contract \<Rightarrow> error + (u64 \<times> payment_contract)" where
  "send_money ctx recipient amt note s =
    (let sender = txn_sender ctx;
         sender_balance = box_get (balances s) sender 0
     in
     if \<not> sender_balance \<ge> amt then Inl Insufficient_balance
     else if \<not> amt > 0 then Inl Amount_must_be_positive
     else
       bind (u64_sub sender_balance amt) (\<lambda>debited.
       let s1 = put_balance sender debited s;
           recipient_balance = box_get (balances s1) recipient 0
       in
       bind (u64_add recipient_balance amt) (\<lambda>credited.
       let s2 = put_balance recipient credited s1 in
       bind (if recipient_balance = 0 then u64_add (active_users s2) 1 else Inr (active_users s2)) (\<lambda>au.
       bind (u64_add (total_transactions s2) 1) (\<lambda>tt.
       Inr (tt, s2\<lparr> active_users := au, total_transactions := tt \<rparr>))))))"

definition withdraw :: "txn_ctx \<Rightarrow> u64 \<Rightarrow> payment_contract \<Rightarrow> error + payment_contract" where
  "withdraw ctx amt s =
    (let sender = txn_sender ctx;
         sender_balance = box_get (balances s) sender 0
     in
     if \<not> sender_balance \<ge> amt then Inl Insufficient_balance
     else if \<not> amt > 0 then Inl Amount_must_be_positive
     else
       bind (u64_sub sender_balance amt) (\<lambda>debited.
       let s1 = put_balance sender debited s in
       Inr (pay_submit (Payment sender amt 0) s1)))"

definition verify_campus ::
  "txn_ctx \<Rightarrow> account \<Rightarrow> string \<Rightarrow> payment_contract \<Rightarrow> error + (bool \<times> payment_contract)" where
  "verify_campus ctx user campus s =
    (if txn_sender ctx \<noteq> creator_address ctx then Inl Only_creator_can_verify
     else
       let s1 = s\<lparr> campus_id := (campus_id s)(user \<mapsto> campus),
                   pay_trace := pay_trace s @ [Box_write (Put_campus_id user campus)] \<rparr>;
           s2 = s1\<lparr> campus_verified := (campus_verified s1)(user \<mapsto> True),
                    pay_trace := pay_trace s1 @ [Box_write (Put_campus_verified user True)] \<rparr>
       in Inr (True, s2))"

definition is_verified :: "account \<Rightarrow> payment_contract \<Rightarrow> bool" where
  "is_verified user s = box_get (campus_verified s) user False"

definition get_balance :: "account \<Rightarrow> payment_contract \<Rightarrow> u64" where
  "get_balance user s = box_get (balances s) user 0"

datatype ledger_call =
    Deposit txn_ctx payment_txn
  | Send_money txn_ctx account u64 string
  | Withdraw txn_ctx u64

fun ledger_step :: "ledger_call \<Rightarrow> payment_contract \<Rightarrow> payment_contract" where
  "ledger_step (Deposit ctx p) s = (case deposit ctx p s of Inl e \<Rightarrow> s | Inr s' \<Rightarrow> s')"
| "ledger_step (Send_money ctx r a n) s = (case send_money ctx r a n s of Inl e \<Rightarrow> s | Inr (tid, s') \<Rightarrow> s')"
| "ledger_step (Withdraw ctx a) s = (case withdraw ctx a s of Inl e \<Rightarrow> s | Inr s' \<Rightarrow> s')"

fun deposited :: "ledger_call \<Rightarrow> payment_contract \<Rightarrow> nat" where
  "deposited (Deposit ctx p) s = (case deposit ctx p s of Inl e \<Rightarrow> 0 | Inr s' \<Rightarrow> unat (amount p))"
| "deposited _ s = 0"

fun run_ledger :: "ledger_call list \<Rightarrow> payment_contract \<Rightarrow> payment_contract" where
  "run_ledger [] s = s"
| "run_ledger (c # cs) s = run_ledger cs (ledger_step c s)"

fun total_deposited :: "ledger_call list \<Rightarrow> payment_contract \<Rightarrow> nat" where
  "total_deposited [] s = 0"
| "total_deposited (c # cs) s = deposited c s + total_deposited cs (ledger_step c s)"

definition map_total :: "(account \<rightharpoonup> u64) \<Rightarrow> nat" where
  "map_total m = (\<Sum>a\<in>dom m. unat (the (m a)))"

definition total_balances :: "payment_contract \<Rightarrow> nat" where
  "total_balances s = map_total (balances s)"


section \<open>The expense split contract (\<^verbatim>\<open>expense/contract.py\<close>)\<close>

record expense_group =
  g_creator :: account
  total_amount :: u64
  num_members :: u64
  total_contributed :: u64
  settled :: bool
  g_deadline :: u64
  penalty_rate :: u64

datatype expense_write =
    Put_group u64 expense_group
  | Put_contribution "u64 \<times> account" u64

record expense_contract =
  groups :: "u64 \<rightharpoonup> expense_group"
  group_members :: "u64 \<times> u64 \<rightharpoonup> account"
  contributions :: "u64 \<times> account \<rightharpoonup> u64"
  next_group_id :: u64
  total_groups :: u64
  total_split :: u64
  exp_trace :: "expense_write effect list"

definition expense_init :: expense_contract where
  "expense_init = \<lparr> groups = Map.empty, group_members = Map.empty, contributions = Map.empty,
     next_group_id = 0, total_groups = 0, total_split = 0, exp_trace = [] \<rparr>"

definition put_group :: "u64 \<Rightarrow> expense_group \<Rightarrow> expense_contract \<Rightarrow> expense_contract" where
  "put_group k v s =
     s\<lparr> groups := (groups s)(k \<mapsto> v), exp_trace := exp_trace s @ [Box_write (Put_group k v)] \<rparr>"

definition put_contribution :: "u64 \<times> account \<Rightarrow> u64 \<Rightarrow> expense_contract \<Rightarrow> expense_contract" where
  "put_contribution k v s =
     s\<lparr> contributions := (contributions s)(k \<mapsto> v),
        exp_trace := exp_trace s @ [Box_write (Put_contribution k v)] \<rparr>"

definition exp_submit :: "itxn \<Rightarrow> expense_contract \<Rightarrow> expense_contract" where
  "exp_submit t s = s\<lparr> exp_trace := exp_trace s @ [Inner_txn t] \<rparr>"

definition create_group ::
  "txn_ctx \<Rightarrow> u64 \<Rightarrow> u64 \<Rightarrow> u64 \<Rightarrow> u64 \<Rightarrow> string \<Rightarrow> expense_contract
     \<Rightarrow> error + (u64 \<times> expense_contract)" where
  "create_group ctx total_amount' num_members' deadline' penalty_rate' description s =
    (if \<not> num_members' \<ge> 2 then Inl Need_at_least_2_members
     else if \<not> num_members' \<le> 50 then Inl Max_50_members_per_group
     else if \<not> total_amount' > 0 then Inl Amount_must_be_positive
     else if \<not> deadline' > latest_timestamp ctx then Inl Deadline_must_be_in_future
     else if \<not> penalty_rate' \<le> 1000 then Inl Max_10_percent_penalty
     else
       let group_id = next_group_id s in
       bind (u64_add (next_group_id s) 1) (\<lambda>nid.
       let s1 = s\<lparr> next_group_id := nid \<rparr>;
           grp = \<lparr> g_creator = txn_sender ctx,
                     total_amount = total_amount',
                     num_members = num_members',
                     total_contributed = 0,
                     settled = False,
                     g_deadline = deadline',
                     penalty_rate = penalty_rate' \<rparr>;
           s2 = put_group group_id grp s1
       in
       bind (u64_add (total_groups s2) 1) (\<lambda>tg.
       Inr (group_id, s2\<lparr> total_groups := tg \<rparr>))))"

definition contribute ::
  "txn_ctx \<Rightarrow> u64 \<Rightarrow> payment_txn \<Rightarrow> expense_contract \<Rightarrow> error + expense_contract" where
  "contribute ctx group_id payment s =
    (case groups s group_id of
       None \<Rightarrow> Inl Group_not_found
     | Some grp \<Rightarrow>
         if settled grp then Inl Group_already_settled
         else if receiver payment \<noteq> current_application_address ctx then Inl Pay_to_app
         else
           bind (u64_floordiv (total_amount grp) (num_members grp)) (\<lambda>expected_share.
           if \<not> amount payment \<ge> expected_share then Inl Insufficient_payment
           else
             let sender_key = (group_id, txn_sender ctx);
                 current = (case contributions s sender_key of Some v \<Rightarrow> v | None \<Rightarrow> 0)
             in
             bind (u64_add current (amount payment)) (\<lambda>accumulated.
             let s1 = put_contribution sender_key accumulated s in
             bind (u64_add (total_contributed grp) (amount payment)) (\<lambda>new_total.
             Inr (put_group group_id (grp\<lparr> total_contributed := new_total \<rparr>) s1)))))"

definition settle_group :: "txn_ctx \<Rightarrow> u64 \<Rightarrow> expense_contract \<Rightarrow> error + expense_contract" where
  "settle_group ctx group_id s =
    (case groups s group_id of
       None \<Rightarrow> Inl Group_not_found
     | Some grp \<Rightarrow>
         if txn_sender ctx \<noteq> g_creator grp then Inl Only_creator_can_settle
         else if \<not> total_contributed grp \<ge> total_amount grp then Inl Not_fully_funded
         else if settled grp then Inl Already_settled
         else
           let grp1 = grp\<lparr> settled := True \<rparr>;
               s1 = put_group group_id grp1 s;
               s2 = exp_submit (Payment (g_creator grp1) (total_amount grp1) 0) s1
           in
           bind (u64_add (total_split s2) (total_amount grp1)) (\<lambda>ts.
           Inr (s2\<lparr> total_split := ts \<rparr>)))"

definition get_contribution :: "u64 \<Rightarrow> account \<Rightarrow> expense_contract \<Rightarrow> u64" where
  "get_contribution group_id member s =
     (case contributions s (group_id, member) of Some v \<Rightarrow> v | None \<Rightarrow> 0)"

text \<open>
  A history of the contract: calls in the order the substrate commits them.  A call
  that fails leaves the state as it was.
\<close>

datatype expense_call =
    Create_group txn_ctx u64 u64 u64 u64 string
  | Contribute txn_ctx u64 payment_txn
  | Settle_group txn_ctx u64

fun expense_step :: "expense_call \<Rightarrow> expense_contract \<Rightarrow> expense_contract" where
  "expense_step (Create_group ctx ta n d p descr) s =
     (case create_group ctx ta n d p descr s of Inl e \<Rightarrow> s | Inr (gid, s') \<Rightarrow> s')"
| "expense_step (Contribute ctx gid p) s =
     (case contribute ctx gid p s of Inl e \<Rightarrow> s | Inr s' \<Rightarrow> s')"
| "expense_step (Settle_group ctx gid) s =
     (case settle_group ctx gid s of Inl e \<Rightarrow> s | Inr s' \<Rightarrow> s')"

fun run_expense :: "expense_call list \<Rightarrow> expense_contract \<Rightarrow> expense_contract" where
  "run_expense [] s = s"
| "run_expense (c # cs) s = run_expense cs (expense_step c s)"

text \<open>
  What every reachable state of the expense contract satisfies: group ids are handed out
  below \<open>next_group_id\<close>, and a stored group has at least two members.
\<close>

definition expense_inv :: "expense_contract \<Rightarrow> bool" where
  "expense_inv s \<longleftrightarrow>
     (\<forall>k grp. groups s k = Some grp \<longrightarrow> k < next_group_id s \<and> 2 \<le> num_members grp)"


section \<open>The fundraising contract (\<^verbatim>\<open>fundraise/contract.py\<close>)\<close>

record campaign =
  c_creator :: account
  goal :: u64
  raised :: u64
  num_milestones :: u64
  milestones_released :: u64
  c_deadline :: u64
  active :: bool
  fully_funded :: bool

datatype fund_write =
    Put_campaign u64 campaign
  | Put_donation "u64 \<times> account" u64

record fundraising_contract =
  campaigns :: "u64 \<rightharpoonup> campaign"
  donations :: "u64 \<times> account \<rightharpoonup> u64"
  next_campaign_id :: u64
  total_campaigns :: u64
  total_raised :: u64
  fund_trace :: "fund_write effect list"

definition fundraising_init :: fundraising_contract where
  "fundraising_init = \<lparr> campaigns = Map.empty, donations = Map.empty,
     next_campaign_id = 0, total_campaigns = 0, total_raised = 0, fund_trace = [] \<rparr>"

definition put_campaign :: "u64 \<Rightarrow> campaign \<Rightarrow> fundraising_contract \<Rightarrow> fundraising_contract" where
  "put_campaign k v s =
     s\<lparr> campaigns := (campaigns s)(k \<mapsto> v),
        fund_trace := fund_trace s @ [Box_write (Put_campaign k v)] \<rparr>"

definition put_donation :: "u64 \<times> account \<Rightarrow> u64 \<Rightarrow> fundraising_contract \<Rightarrow> fundraising_contract" where
  "put_donation k v s =
     s\<lparr> donations := (donations s)(k \<mapsto> v),
        fund_trace := fund_trace s @ [Box_write (Put_donation k v)] \<rparr>"

definition fund_submit :: "itxn \<Rightarrow> fundraising_contract \<Rightarrow> fundraising_contract" where
  "fund_submit t s = s\<lparr> fund_trace := fund_trace s @ [Inner_txn t] \<rparr>"

definition create_campaign ::
  "txn_ctx \<Rightarrow> u64 \<Rightarrow> u64 \<Rightarrow> u64 \<Rightarrow> string \<Rightarrow> string \<Rightarrow> fundraising_contract
     \<Rightarrow> error + (u64 \<times> fundraising_contract)" where
  "create_campaign ctx goal' num_milestones' deadline' title description s =
    (if \<not> goal' > 0 then Inl Goal_must_be_positive
     else if \<not> num_milestones' \<ge> 1 then Inl At_least_1_milestone
     else if \<not> num_milestones' \<le> 10 then Inl Max_10_milestones
     else if \<not> deadline' > latest_timestamp ctx then Inl Deadline_must_be_in_future
     else
       let campaign_id = next_campaign_id s in
       bind (u64_add (next_campaign_id s) 1) (\<lambda>nid.
       let s1 = s\<lparr> next_campaign_id := nid \<rparr>;
           campaign = \<lparr> c_creator = txn_sender ctx,
                        goal = goal',
                        raised = 0,
                        num_milestones = num_milestones',
                        milestones_released = 0,
                        c_deadline = deadline',
                        active = True,
                        fully_funded = False \<rparr>;
           s2 = put_campaign campaign_id campaign s1
       in
       bind (u64_add (total_campaigns s2) 1) (\<lambda>tc.
       Inr (campaign_id, s2\<lparr> total_campaigns := tc \<rparr>))))"

definition donate ::
  "txn_ctx \<Rightarrow> u64 \<Rightarrow> payment_txn \<Rightarrow> fundraising_contract \<Rightarrow> error + fundraising_contract" where
  "donate ctx campaign_id payment s =
    (case campaigns s campaign_id of
       None \<Rightarrow> Inl Campaign_not_found
     | Some campaign \<Rightarrow>
         if \<not> active campaign then Inl Campaign_not_active
         else if receiver payment \<noteq> current_application_address ctx then Inl Pay_to_app
         else if \<not> amount payment > 0 then Inl Amount_must_be_positive
         else
           let donor_key = (campaign_id, txn_sender ctx);
               current_donation = (case donations s donor_key of Some v \<Rightarrow> v | None \<Rightarrow> 0)
           in
           bind (u64_add current_donation (amount payment)) (\<lambda>accumulated.
           let s1 = put_donation donor_key accumulated s in
           bind (u64_add (raised campaign) (amount payment)) (\<lambda>new_raised.
           let campaign1 = campaign\<lparr> raised := new_raised \<rparr>;
               campaign2 = (if new_raised \<ge> goal campaign1
                            then campaign1\<lparr> fully_funded := True \<rparr> else campaign1);
               s2 = put_campaign campaign_id campaign2 s1
           in
           bind (u64_add (total_raised s2) (amount payment)) (\<lambda>tr.
           Inr (s2\<lparr> total_raised := tr \<rparr>)))))"

definition release_milestone ::
  "txn_ctx \<Rightarrow> u64 \<Rightarrow> fundraising_contract \<Rightarrow> error + fundraising_contract" where
  "release_milestone ctx campaign_id s =
    (case campaigns s campaign_id of
       None \<Rightarrow> Inl Campaign_not_found
     | Some campaign \<Rightarrow>
         if txn_sender ctx \<noteq> c_creator campaign then Inl Only_creator
         else if \<not> fully_funded campaign then Inl Not_fully_funded_yet
         else if \<not> milestones_released campaign < num_milestones campaign
           then Inl All_milestones_released
         else
           bind (u64_floordiv (goal campaign) (num_milestones campaign)) (\<lambda>milestone_amount.
           let s1 = fund_submit (Payment (c_creator campaign) milestone_amount 0) s in
           bind (u64_add (milestones_released campaign) 1) (\<lambda>released.
           let campaign1 = campaign\<lparr> milestones_released := released \<rparr>;
               campaign2 = (if milestones_released campaign1 = num_milestones campaign1
                            then campaign1\<lparr> active := False \<rparr> else campaign1)
           in
           Inr (put_campaign campaign_id campaign2 s1))))"

definition claim_refund ::
  "txn_ctx \<Rightarrow> u64 \<Rightarrow> fundraising_contract \<Rightarrow> error + fundraising_contract" where
  "claim_refund ctx campaign_id s =
    (case campaigns s campaign_id of
       None \<Rightarrow> Inl Campaign_not_found
     | Some campaign \<Rightarrow>
         if \<not> latest_timestamp ctx > c_deadline campaign then Inl Deadline_not_passed
         else if fully_funded campaign then Inl Campaign_was_funded_no_refund
         else
           let donor_key = (campaign_id, txn_sender ctx) in
           (case donations s donor_key of
              None \<Rightarrow> Inl No_donation_found
            | Some refund_amount \<Rightarrow>
                if \<not> refund_amount > 0 then Inl Nothing_to_refund
                else
                  let s1 = put_donation donor_key 0 s in
                  Inr (fund_submit (Payment (txn_sender ctx) refund_amount 0) s1)))"

definition get_donation :: "u64 \<Rightarrow> account \<Rightarrow> fundraising_contract \<Rightarrow> u64" where
  "get_donation campaign_id donor s =
     (case donations s (campaign_id, donor) of Some v \<Rightarrow> v | None \<Rightarrow> 0)"

datatype fund_call =
    Create_campaign txn_ctx u64 u64 u64 string string
  | Donate txn_ctx u64 payment_txn
  | Release_milestone txn_ctx u64
  | Claim_refund txn_ctx u64

fun fund_step :: "fund_call \<Rightarrow> fundraising_contract \<Rightarrow> fundraising_contract" where
  "fund_step (Create_campaign ctx g n d t descr) s =
     (case create_campaign ctx g n d t descr s of Inl e \<Rightarrow> s | Inr (cid, s') \<Rightarrow> s')"
| "fund_step (Donate ctx cid p) s =
     (case donate ctx cid p s of Inl e \<Rightarrow> s | Inr s' \<Rightarrow> s')"
| "fund_step (Release_milestone ctx cid) s =
     (case release_milestone ctx cid s of Inl e \<Rightarrow> s | Inr s' \<Rightarrow> s')"
| "fund_step (Claim_refund ctx cid) s =
     (case claim_refund ctx cid s of Inl e \<Rightarrow> s | Inr s' \<Rightarrow> s')"

fun run_fund :: "fund_call list \<Rightarrow> fundraising_contract \<Rightarrow> fundraising_contract" where
  "run_fund [] s = s"
| "run_fund (c # cs) s = run_fund cs (fund_step c s)"

text \<open>
  What every reachable state of the fundraising contract satisfies: campaign ids are
  handed out below \<open>next_campaign_id\<close>; a campaign has at least one milestone, has
  released no more than it has, is active exactly while milestones remain, and has
  released a milestone only if it is fully funded.
\<close>

definition fund_inv :: "fundraising_contract \<Rightarrow> bool" where
  "fund_inv s \<longleftrightarrow>
     (\<forall>k c. campaigns s k = Some c \<longrightarrow>
        k < next_campaign_id s \<and>
        1 \<le> num_milestones c \<and>
        milestones_released c \<le> num_milestones c \<and>
        (active c \<longleftrightarrow> milestones_released c < num_milestones c) \<and>
        (milestones_released c \<noteq> 0 \<longrightarrow> fully_funded c))"

text \<open>
  Bookkeeping over a history, for one campaign: how many \<^verbatim>\<open>release_milestone\<close> calls on
  it succeeded, and how much those calls paid out in total (what each added to the
  payments of the trace).
\<close>

fun release_succeeded :: "u64 \<Rightarrow> fund_call \<Rightarrow> fundraising_contract \<Rightarrow> nat" where
  "release_succeeded cid (Release_milestone ctx k) s =
     (if k = cid then (case release_milestone ctx k s of Inl e \<Rightarrow> 0 | Inr s' \<Rightarrow> 1) else 0)"
| "release_succeeded cid _ s = 0"

fun released_by :: "u64 \<Rightarrow> fund_call \<Rightarrow> fundraising_contract \<Rightarrow> nat" where
  "released_by cid (Release_milestone ctx k) s =
     (if k = cid
      then (case release_milestone ctx k s of
              Inl e \<Rightarrow> 0
            | Inr s' \<Rightarrow> paid_out (fund_trace s') - paid_out (fund_trace s))
      else 0)"
| "released_by cid _ s = 0"

fun releases :: "u64 \<Rightarrow> fund_call list \<Rightarrow> fundraising_contract \<Rightarrow> nat" where
  "releases cid [] s = 0"
| "releases cid (c # cs) s = release_succeeded cid c s + releases cid cs (fund_step c s)"

fun total_released :: "u64 \<Rightarrow> fund_call list \<Rightarrow> fundraising_contract \<Rightarrow> nat" where
  "total_released cid [] s = 0"
| "total_released cid (c # cs) s = released_by cid c s + total_released cid cs (fund_step c s)"

text \<open>The same two quantities as the store records them.\<close>

definition stored_releases :: "fundraising_contract \<Rightarrow> u64 \<Rightarrow> nat" where
  "stored_releases s cid =
     (case campaigns s cid of None \<Rightarrow> 0 | Some c \<Rightarrow> unat (milestones_released c))"

definition stored_payout :: "fundraising_contract \<Rightarrow> u64 \<Rightarrow> nat" where
  "stored_payout s cid =
     (case campaigns s cid of
        None \<Rightarrow> 0
      | Some c \<Rightarrow> unat (milestones_released c) * (unat (goal c) div unat (num_milestones c)))"

section \<open>The event ticketing contract (\<^verbatim>\<open>ticketing/contract.py\<close>)\<close>

record event =
  organizer :: account
  price :: u64
  max_tickets :: u64
  sold :: u64
  transferable :: bool
  start_time :: u64
  end_time :: u64

record ticket =
  event_id :: u64
  owner :: account
  ticket_number :: u64
  used :: bool
  purchase_time :: u64

datatype ticket_write =
    Put_event u64 event
  | Put_ticket u64 ticket

record ticketing_contract =
  events :: "u64 \<rightharpoonup> event"
  tickets :: "u64 \<rightharpoonup> ticket"
  next_event_id :: u64
  total_tickets_sold :: u64
  tix_trace :: "ticket_write effect list"

definition ticketing_init :: ticketing_contract where
  "ticketing_init = \<lparr> events = Map.empty, tickets = Map.empty,
     next_event_id = 0, total_tickets_sold = 0, tix_trace = [] \<rparr>"

definition put_event :: "u64 \<Rightarrow> event \<Rightarrow> ticketing_contract \<Rightarrow> ticketing_contract" where
  "put_event k v s =
     s\<lparr> events := (events s)(k \<mapsto> v), tix_trace := tix_trace s @ [Box_write (Put_event k v)] \<rparr>"

definition put_ticket :: "u64 \<Rightarrow> ticket \<Rightarrow> ticketing_contract \<Rightarrow> ticketing_contract" where
  "put_ticket k v s =
     s\<lparr> tickets := (tickets s)(k \<mapsto> v), tix_trace := tix_trace s @ [Box_write (Put_ticket k v)] \<rparr>"

definition tix_submit :: "itxn \<Rightarrow> ticketing_contract \<Rightarrow> ticketing_contract" where
  "tix_submit t s = s\<lparr> tix_trace := tix_trace s @ [Inner_txn t] \<rparr>"

definition create_event ::
  "txn_ctx \<Rightarrow> string \<Rightarrow> u64 \<Rightarrow> u64 \<Rightarrow> bool \<Rightarrow> u64 \<Rightarrow> u64 \<Rightarrow> string \<Rightarrow> ticketing_contract
     \<Rightarrow> error + (u64 \<times> ticketing_contract)" where
  "create_event ctx name price' max_tickets' transferable' start_time' end_time' description s =
    (if \<not> max_tickets' > 0 then Inl Must_have_at_least_1_ticket
     else if \<not> max_tickets' \<le> 100000 then Inl Max_100000_tickets
     else if \<not> end_time' > start_time' then Inl End_must_be_after_start
     else
       let new_id = next_event_id s in
       bind (u64_add (next_event_id s) 1) (\<lambda>nid.
       let s1 = s\<lparr> next_event_id := nid \<rparr>;
           ev = \<lparr> organizer = txn_sender ctx,
                  price = price',
                  max_tickets = max_tickets',
                  sold = 0,
                  transferable = transferable',
                  start_time = start_time',
                  end_time = end_time' \<rparr>
       in
       Inr (new_id, put_event new_id ev s1)))"

text \<open>
  \<^verbatim>\<open>buy_ticket\<close> mints the ticket with an asset-creation inner transaction and reads
  the new asset's id from its result.  That id is chosen by the substrate, not by the
  contract: it is the argument \<open>created_asset\<close> of the model.
\<close>

definition buy_ticket ::
  "txn_ctx \<Rightarrow> u64 \<Rightarrow> u64 \<Rightarrow> payment_txn \<Rightarrow> ticketing_contract
     \<Rightarrow> error + (u64 \<times> ticketing_contract)" where
  "buy_ticket ctx created_asset eid payment s =
    (case events s eid of
       None \<Rightarrow> Inl Event_not_found
     | Some ev \<Rightarrow>
         if \<not> sold ev < max_tickets ev then Inl Sold_out
         else if amount payment \<noteq> price ev then Inl Incorrect_payment_amount
         else if receiver payment \<noteq> current_application_address ctx then Inl Pay_to_app
         else
           let number = sold ev;
               s1 = tix_submit (Asset_config created_asset) s;
               asset_id = created_asset;
               s2 = tix_submit (Asset_transfer asset_id (txn_sender ctx) 1) s1;
               s3 = (if \<not> transferable ev
                     then tix_submit (Asset_freeze asset_id (txn_sender ctx) True) s2 else s2);
               tk = \<lparr> event_id = eid,
                      owner = txn_sender ctx,
                      ticket_number = number,
                      used = False,
                      purchase_time = latest_timestamp ctx \<rparr>;
               s4 = put_ticket asset_id tk s3
           in
           bind (u64_add number 1) (\<lambda>new_sold.
           let s5 = put_event eid (ev\<lparr> sold := new_sold \<rparr>) s4 in
           bind (u64_add (total_tickets_sold s5) 1) (\<lambda>tts.
           Inr (asset_id, s5\<lparr> total_tickets_sold := tts \<rparr>))))"

definition use_ticket :: "txn_ctx \<Rightarrow> u64 \<Rightarrow> ticketing_contract \<Rightarrow> error + ticketing_contract" where
  "use_ticket ctx asset_id s =
    (case tickets s asset_id of
       None \<Rightarrow> Inl Ticket_not_found
     | Some tk \<Rightarrow>
         (case events s (event_id tk) of
            None \<Rightarrow> Inl Event_not_found
          | Some ev \<Rightarrow>
              if txn_sender ctx \<noteq> organizer ev then Inl Only_organizer_can_mark_used
              else if used tk then Inl Ticket_already_used
              else Inr (put_ticket asset_id (tk\<lparr> used := True \<rparr>) s)))"

definition withdraw_sales :: "txn_ctx \<Rightarrow> u64 \<Rightarrow> ticketing_contract \<Rightarrow> error + ticketing_contract" where
  "withdraw_sales ctx eid s =
    (case events s eid of
       None \<Rightarrow> Inl Event_not_found
     | Some ev \<Rightarrow>
         if txn_sender ctx \<noteq> organizer ev then Inl Only_organizer
         else
           bind (u64_mul (price ev) (sold ev)) (\<lambda>revenue.
           if \<not> revenue > 0 then Inl No_revenue_to_withdraw
           else Inr (tix_submit (Payment (txn_sender ctx) revenue 0) s)))"

datatype ticket_call =
    Create_event txn_ctx string u64 u64 bool u64 u64 string
  | Buy_ticket txn_ctx u64 u64 payment_txn
  | Use_ticket txn_ctx u64
  | Withdraw_sales txn_ctx u64

fun ticket_step :: "ticket_call \<Rightarrow> ticketing_contract \<Rightarrow> ticketing_contract" where
  "ticket_step (Create_event ctx n p m t st en d) s =
     (case create_event ctx n p m t st en d s of Inl e \<Rightarrow> s | Inr (eid, s') \<Rightarrow> s')"
| "ticket_step (Buy_ticket ctx aid eid p) s =
     (case buy_ticket ctx aid eid p s of Inl e \<Rightarrow> s | Inr (a, s') \<Rightarrow> s')"
| "ticket_step (Use_ticket ctx aid) s =
     (case use_ticket ctx aid s of Inl e \<Rightarrow> s | Inr s' \<Rightarrow> s')"
| "ticket_step (Withdraw_sales ctx eid) s =
     (case withdraw_sales ctx eid s of Inl e \<Rightarrow> s | Inr s' \<Rightarrow> s')"

fun run_tickets :: "ticket_call list \<Rightarrow> ticketing_contract \<Rightarrow> ticketing_contract" where
  "run_tickets [] s = s"
| "run_tickets (c # cs) s = run_tickets cs (ticket_step c s)"

text \<open>
  The substrate gives every created asset an id that no existing asset has.  For a
  history this says: the id handed to each \<^verbatim>\<open>buy_ticket\<close> call is not yet a key of the
  ticket box.
\<close>

fun assets_fresh :: "ticket_call list \<Rightarrow> ticketing_contract \<Rightarrow> bool" where
  "assets_fresh [] s = True"
| "assets_fresh (Buy_ticket ctx aid eid p # cs) s =
     (tickets s aid = None \<and> assets_fresh cs (ticket_step (Buy_ticket ctx aid eid p) s))"
| "assets_fresh (c # cs) s = assets_fresh cs (ticket_step c s)"

text \<open>
  What every reachable state of the ticketing contract satisfies: event ids are handed
  out below \<open>next_event_id\<close>; no event has sold more than its capacity; every ticket
  belongs to a stored event and its number is below that event's \<open>sold\<close>; every number
  below \<open>sold\<close> is the number of some ticket of the event; and two tickets of one event
  with the same number are the same ticket.
\<close>

definition tix_inv :: "ticketing_contract \<Rightarrow> bool" where
  "tix_inv s \<longleftrightarrow>
     (\<forall>k ev. events s k = Some ev \<longrightarrow> k < next_event_id s \<and> sold ev \<le> max_tickets ev) \<and>
     (\<forall>a tk. tickets s a = Some tk \<longrightarrow>
        (\<exists>ev. events s (event_id tk) = Some ev \<and> ticket_number tk < sold ev)) \<and>
     (\<forall>k ev n. events s k = Some ev \<and> n < sold ev \<longrightarrow>
        (\<exists>a tk. tickets s a = Some tk \<and> event_id tk = k \<and> ticket_number tk = n)) \<and>
     (\<forall>a b ta tb. tickets s a = Some ta \<and> tickets s b = Some tb \<and>
        event_id ta = event_id tb \<and> ticket_number ta = ticket_number tb \<longrightarrow> a = b)"

text \<open>
  A state of the registry in which the global counter is full.  It holds 281470681808895
  events with 65537 tickets sold each, which is \<open>2\<^sup>6\<^sup>4 - 1\<close> tickets in all; event 0 has
  room for one more ticket and every other event is sold out.  The ticket with asset id
  \<open>a\<close> belongs to event \<open>a div 65537\<close> and has the number \<open>a mod 65537\<close>; the asset id
  \<open>2\<^sup>6\<^sup>4 - 1\<close> is still free.
\<close>

definition counter_full_state :: ticketing_contract where
  "counter_full_state =
     \<lparr> events = (\<lambda>k. if k < 281470681808895
                   then Some \<lparr> organizer = 1, price = 5,
                               max_tickets = (if k = 0 then 65538 else 65537), sold = 65537,
                               transferable = False, start_time = 100, end_time = 200 \<rparr>
                   else None),
       tickets = (\<lambda>a. if a < 18446744073709551615
                    then Some \<lparr> event_id = a div 65537, owner = 2, ticket_number = a mod 65537,
                                used = False, purchase_time = 1 \<rparr>
                    else None),
       next_event_id = 281470681808895,
       total_tickets_sold = 18446744073709551615,
       tix_trace = [] \<rparr>"

section \<open>Checked arithmetic and sequencing\<close>

lemma u64_add_Inr: "u64_add a b = Inr c \<longleftrightarrow> unat a + unat b < 2 ^ 64 \<and> c = a + b"
  by (auto simp: u64_add_def)

lemma u64_sub_Inr: "u64_sub a b = Inr c \<longleftrightarrow> b \<le> a \<and> c = a - b"
  by (auto simp: u64_sub_def)

lemma u64_mul_Inr: "u64_mul a b = Inr c \<longleftrightarrow> unat a * unat b < 2 ^ 64 \<and> c = a * b"
  by (auto simp: u64_mul_def)

lemma u64_floordiv_Inr: "u64_floordiv a b = Inr c \<longleftrightarrow> b \<noteq> 0 \<and> c = a div b"
  by (auto simp: u64_floordiv_def)

lemma unat_u64_add: "unat a + unat b < 2 ^ 64 \<Longrightarrow> unat (a + b :: u64) = unat a + unat b"
  by (simp add: unat_add_lem [THEN iffD1])

lemma unat_u64_sub: "b \<le> a \<Longrightarrow> unat (a - b :: u64) = unat a - unat b"
  by (simp add: unat_sub)

lemma bind_Inr: "bind m f = Inr y \<longleftrightarrow> (\<exists>x. m = Inr x \<and> f x = Inr y)"
  by (cases m) (auto simp: bind_def)

lemma bind_Inl: "bind m f = Inl e \<longleftrightarrow> m = Inl e \<or> (\<exists>x. m = Inr x \<and> f x = Inl e)"
  by (cases m) (auto simp: bind_def)

lemma paid_out_append: "paid_out (xs @ ys) = paid_out xs + paid_out ys"
  by (simp add: paid_out_def)

lemma payments_append: "payments (xs @ ys) = payments xs @ payments ys"
  by (induction xs rule: payments.induct) simp_all

lemma word_less_succ:
  fixes k n :: u64
  assumes "unat n + 1 < 2 ^ 64"
  shows "n < n + 1" and "k < n \<Longrightarrow> k < n + 1"
proof -
  have u: "unat (n + 1) = unat n + 1"
    using assms unat_u64_add [of n 1] by simp
  then show "n < n + 1" by (simp add: word_less_nat_alt)
  assume "k < n"
  with u show "k < n + 1" by (simp add: word_less_nat_alt)
qed

lemma unat_succ_below:
  fixes a b :: u64
  assumes "a < b"
  shows "unat (a + 1) = unat a + 1" and "a + 1 \<le> b" and "a + 1 \<noteq> 0"
proof -
  from assms have lt: "unat a < unat b" by (simp add: word_less_nat_alt)
  have "unat b < 2 ^ 64" using unsigned_less [of b] by simp
  with lt have "unat a + 1 < 2 ^ 64" by simp
  then show u: "unat (a + 1) = unat a + 1" using unat_u64_add [of a 1] by simp
  with lt show "a + 1 \<le> b" by (simp add: word_le_nat_alt)
  from u show "a + 1 \<noteq> 0" by (metis Suc_eq_plus1 nat.distinct(1) unat_0)
qed

section \<open>The balance ledger\<close>

lemma map_total_upd:
  assumes "finite (dom m)"
  shows "map_total (m(k \<mapsto> v)) + unat (box_get m k 0) = map_total m + unat v"
proof -
  let ?f = "\<lambda>a. unat (the (m a))"
  let ?g = "\<lambda>a. unat (the ((m(k \<mapsto> v)) a))"
  have "map_total (m(k \<mapsto> v)) = sum ?g (insert k (dom m))"
    by (simp add: map_total_def)
  also have "\<dots> = ?g k + sum ?g (dom m - {k})"
    using assms by (rule sum.insert_remove)
  also have "?g k + sum ?g (dom m - {k}) = unat v + sum ?f (dom m - {k})"
  proof -
    have "sum ?g (dom m - {k}) = sum ?f (dom m - {k})"
      by (rule sum.cong) auto
    then show ?thesis by simp
  qed
  finally have new: "map_total (m(k \<mapsto> v)) = unat v + sum ?f (dom m - {k})" .
  have old: "map_total m = unat (box_get m k 0) + sum ?f (dom m - {k})"
  proof (cases "m k")
    case None
    then have "dom m - {k} = dom m" by auto
    with None show ?thesis by (simp add: map_total_def box_get_def)
  next
    case (Some w)
    then have "k \<in> dom m" by auto
    with assms have "sum ?f (dom m) = ?f k + sum ?f (dom m - {k})"
      by (simp add: sum.remove)
    with Some show ?thesis by (simp add: map_total_def box_get_def)
  qed
  from new old show ?thesis by simp
qed

lemma deposit_Inr:
  assumes "deposit ctx p s = Inr s'"
  shows "receiver p = current_application_address ctx \<and> 0 < amount p \<and>
         unat (box_get (balances s) (txn_sender ctx) 0) + unat (amount p) < 2 ^ 64 \<and>
         balances s' = (balances s)(txn_sender ctx \<mapsto> box_get (balances s) (txn_sender ctx) 0 + amount p) \<and>
         pay_trace s' = pay_trace s @
           [Box_write (Put_balance (txn_sender ctx) (box_get (balances s) (txn_sender ctx) 0 + amount p))]"
  using assms
  by (auto simp: deposit_def Let_def bind_Inr u64_add_Inr put_balance_def split: if_splits)

lemma send_money_Inr:
  "send_money ctx recipient amt note s = Inr (tid, s') \<longleftrightarrow>
     (let sender = txn_sender ctx;
          sb = get_balance sender s;
          rb = (if recipient = sender then sb - amt else get_balance recipient s)
      in amt \<le> sb \<and> 0 < amt \<and> unat rb + unat amt < 2 ^ 64 \<and>
         (rb = 0 \<longrightarrow> unat (active_users s) + 1 < 2 ^ 64) \<and>
         unat (total_transactions s) + 1 < 2 ^ 64 \<and>
         tid = total_transactions s + 1 \<and>
         s' = s\<lparr> balances := (balances s)(sender \<mapsto> sb - amt, recipient \<mapsto> rb + amt),
                 active_users := (if rb = 0 then active_users s + 1 else active_users s),
                 total_transactions := tid,
                 pay_trace := pay_trace s @
                   [Box_write (Put_balance sender (sb - amt)),
                    Box_write (Put_balance recipient (rb + amt))] \<rparr>)"
  by (auto simp: send_money_def Let_def bind_Inr u64_add_Inr u64_sub_Inr put_balance_def
        get_balance_def box_get_def split: if_splits)

lemma withdraw_Inr:
  "withdraw ctx amt s = Inr s' \<longleftrightarrow>
     (let sender = txn_sender ctx; sb = get_balance sender s
      in amt \<le> sb \<and> 0 < amt \<and>
         s' = s\<lparr> balances := (balances s)(sender \<mapsto> sb - amt),
                 pay_trace := pay_trace s @
                   [Box_write (Put_balance sender (sb - amt)), Inner_txn (Payment sender amt 0)] \<rparr>)"
  by (auto simp: withdraw_def Let_def bind_Inr u64_sub_Inr put_balance_def pay_submit_def
        get_balance_def split: if_splits)


lemma map_total_credit:
  assumes "finite (dom m)" and "unat (box_get m k 0) + unat a < 2 ^ 64"
  shows "map_total (m(k \<mapsto> box_get m k 0 + a)) = map_total m + unat a"
  using map_total_upd [OF assms(1), of k "box_get m k 0 + a"] assms(2)
  by (simp add: unat_u64_add)

lemma map_total_debit:
  assumes "finite (dom m)" and "a \<le> box_get m k 0"
  shows "map_total (m(k \<mapsto> box_get m k 0 - a)) + unat a = map_total m"
proof -
  have "unat a \<le> unat (box_get m k 0)"
    using assms(2) by (simp add: word_le_nat_alt)
  then show ?thesis
    using map_total_upd [OF assms(1), of k "box_get m k 0 - a"] assms(2)
    by (simp add: unat_u64_sub)
qed

lemma deposit_conserves:
  assumes "finite (dom (balances s))" and "deposit ctx p s = Inr s'"
  shows "finite (dom (balances s')) \<and>
         total_balances s' = total_balances s + unat (amount p) \<and>
         paid_out (pay_trace s') = paid_out (pay_trace s)"
  using deposit_Inr [OF assms(2)] assms(1)
  by (simp add: total_balances_def map_total_credit paid_out_append paid_out_def)

lemma withdraw_conserves:
  assumes "finite (dom (balances s))" and "withdraw ctx amt s = Inr s'"
  shows "finite (dom (balances s')) \<and>
         total_balances s' + unat amt = total_balances s \<and>
         paid_out (pay_trace s') = paid_out (pay_trace s) + unat amt"
  using assms(2) assms(1)
  by (simp add: withdraw_Inr Let_def get_balance_def total_balances_def map_total_debit
        paid_out_append paid_out_def)

lemma send_money_conserves:
  assumes "finite (dom (balances s))" and "send_money ctx recipient amt note s = Inr (tid, s')"
  shows "finite (dom (balances s')) \<and>
         total_balances s' = total_balances s \<and>
         paid_out (pay_trace s') = paid_out (pay_trace s)"
proof -
  let ?sender = "txn_sender ctx"
  let ?m = "balances s"
  let ?m1 = "?m(?sender \<mapsto> box_get ?m ?sender 0 - amt)"
  let ?rb = "box_get ?m1 recipient 0"
  have rb: "?rb = (if recipient = ?sender then get_balance ?sender s - amt else get_balance recipient s)"
    by (simp add: box_get_def get_balance_def)
  from assms(2) have le: "amt \<le> box_get ?m ?sender 0"
    and fits: "unat ?rb + unat amt < 2 ^ 64"
    and bal: "balances s' = ?m1(recipient \<mapsto> ?rb + amt)"
    and tr: "paid_out (pay_trace s') = paid_out (pay_trace s)"
    unfolding rb by (auto simp: send_money_Inr Let_def get_balance_def paid_out_def)
  have f1: "finite (dom ?m1)" using assms(1) by simp
  have "map_total ?m1 + unat amt = map_total ?m"
    using assms(1) le by (rule map_total_debit)
  moreover have "map_total (?m1(recipient \<mapsto> ?rb + amt)) = map_total ?m1 + unat amt"
    using f1 fits by (rule map_total_credit)
  ultimately have "total_balances s' = total_balances s"
    by (simp add: total_balances_def bal)
  moreover have "finite (dom (balances s'))"
    using assms(1) by (simp add: bal)
  ultimately show ?thesis using tr by simp
qed

lemma ledger_step_conserves:
  assumes "finite (dom (balances s))"
  shows "finite (dom (balances (ledger_step c s))) \<and>
         total_balances (ledger_step c s) + paid_out (pay_trace (ledger_step c s)) =
           total_balances s + paid_out (pay_trace s) + deposited c s"
proof (cases c)
  case (Deposit ctx p)
  show ?thesis
  proof (cases "deposit ctx p s")
    case (Inl e)
    with Deposit assms show ?thesis by simp
  next
    case (Inr s')
    with Deposit deposit_conserves [OF assms Inr] show ?thesis by simp
  qed
next
  case (Send_money ctx r a n)
  show ?thesis
  proof (cases "send_money ctx r a n s")
    case (Inl e)
    with Send_money assms show ?thesis by simp
  next
    case (Inr res)
    obtain tid s' where res: "res = (tid, s')" by (cases res)
    with Send_money Inr send_money_conserves [OF assms, of ctx r a n tid s'] show ?thesis by simp
  qed
next
  case (Withdraw ctx a)
  show ?thesis
  proof (cases "withdraw ctx a s")
    case (Inl e)
    with Withdraw assms show ?thesis by simp
  next
    case (Inr s')
    with Withdraw withdraw_conserves [OF assms Inr] show ?thesis by simp
  qed
qed

lemma run_ledger_conserves:
  "finite (dom (balances s)) \<Longrightarrow>
     finite (dom (balances (run_ledger cs s))) \<and>
     total_balances (run_ledger cs s) + paid_out (pay_trace (run_ledger cs s)) =
       total_balances s + paid_out (pay_trace s) + total_deposited cs s"
proof (induction cs arbitrary: s)
  case Nil
  then show ?case by simp
next
  case (Cons c cs)
  from ledger_step_conserves [OF Cons.prems, of c]
  have f: "finite (dom (balances (ledger_step c s)))"
    and e: "total_balances (ledger_step c s) + paid_out (pay_trace (ledger_step c s)) =
           total_balances s + paid_out (pay_trace s) + deposited c s" by simp_all
  from Cons.IH [OF f] e show ?case by simp
qed

text \<open>
  The debit of \<^verbatim>\<open>send_money\<close> and \<^verbatim>\<open>withdraw\<close> is guarded by the balance check: the
  subtraction never underflows.
\<close>

lemma send_money_no_underflow: "send_money ctx recipient amt note s \<noteq> Inl Arith_underflow"
  by (auto simp: send_money_def Let_def bind_Inl u64_sub_def u64_add_def split: if_splits)

lemma withdraw_no_underflow: "withdraw ctx amt s \<noteq> Inl Arith_underflow"
  by (auto simp: withdraw_def Let_def bind_Inl u64_sub_def split: if_splits)

text \<open>\<^verbatim>\<open>withdraw\<close> writes the debited balance first and submits the payment second.\<close>

lemma withdraw_writes_then_pays:
  assumes "withdraw ctx amt s = Inr s'"
  shows "pay_trace s' = pay_trace s @
     [Box_write (Put_balance (txn_sender ctx) (get_balance (txn_sender ctx) s - amt)),
      Inner_txn (Payment (txn_sender ctx) amt 0)]"
  using assms by (simp add: withdraw_Inr Let_def)

text \<open>
  Claim C2.  Take any sequence of \<^verbatim>\<open>deposit\<close>, \<^verbatim>\<open>send_money\<close> and \<^verbatim>\<open>withdraw\<close> calls,
  run from the empty contract (a failed call changes nothing).  Afterwards every stored
  balance is at least 0, and the sum of all stored balances is at most the value deposited
  by the successful deposits minus the value the contract has paid out.  Every prefix of
  a sequence is a sequence, so this holds after each operation.
\<close>

theorem ledger_solvent:
  "(\<forall>a. 0 \<le> uint (get_balance a (run_ledger calls payment_init))) \<and>
   paid_out (pay_trace (run_ledger calls payment_init)) \<le> total_deposited calls payment_init \<and>
   total_balances (run_ledger calls payment_init) \<le>
     total_deposited calls payment_init - paid_out (pay_trace (run_ledger calls payment_init))"
proof -
  have "finite (dom (balances payment_init))" by (simp add: payment_init_def)
  from run_ledger_conserves [OF this, of calls]
  have "total_balances (run_ledger calls payment_init) + paid_out (pay_trace (run_ledger calls payment_init)) =
        total_deposited calls payment_init"
    by (simp add: payment_init_def total_balances_def map_total_def paid_out_def)
  then show ?thesis by simp
qed

text \<open>The sum is in fact equal to the net inbound value: transfers only move it.\<close>

lemma ledger_exact:
  "total_balances (run_ledger calls payment_init) + paid_out (pay_trace (run_ledger calls payment_init)) =
     total_deposited calls payment_init"
proof -
  have "finite (dom (balances payment_init))" by (simp add: payment_init_def)
  from run_ledger_conserves [OF this, of calls] show ?thesis
    by (simp add: payment_init_def total_balances_def map_total_def paid_out_def)
qed

text \<open>
  Claim C9, as amended.  \<^verbatim>\<open>send_money\<close> succeeds exactly when the caller's balance is at
  least the amount, the amount is positive, and none of its three additions leaves the
  64-bit range: the recipient's balance plus the amount, the active-user counter plus one
  (taken when the recipient's balance was zero), and the transaction counter plus one.
  On success the caller is debited by the amount, the recipient (whose balance is read
  after the debit, as 0 when it has no record) is credited by the amount, the trace gains
  no payment, and the value returned is the incremented transaction counter.
\<close>

theorem send_money_spec:
  "(let sender = txn_sender ctx;
        sb = get_balance sender s;
        rb = (if recipient = sender then sb - amt else get_balance recipient s)
    in
      ((\<exists>r. send_money ctx recipient amt note s = Inr r) \<longleftrightarrow>
         amt \<le> sb \<and> 0 < amt \<and>
         unat rb + unat amt < 2 ^ 64 \<and>
         (rb = 0 \<longrightarrow> unat (active_users s) + 1 < 2 ^ 64) \<and>
         unat (total_transactions s) + 1 < 2 ^ 64) \<and>
      (\<forall>tid s'. send_money ctx recipient amt note s = Inr (tid, s') \<longrightarrow>
         tid = total_transactions s + 1 \<and> total_transactions s' = tid \<and>
         unat tid = unat (total_transactions s) + 1 \<and>
         balances s' = (balances s)(sender \<mapsto> sb - amt, recipient \<mapsto> rb + amt) \<and>
         unat (sb - amt) = unat sb - unat amt \<and>
         unat (rb + amt) = unat rb + unat amt \<and>
         payments (pay_trace s') = payments (pay_trace s)))"
proof -
  let ?sender = "txn_sender ctx"
  let ?sb = "get_balance ?sender s"
  let ?rb = "if recipient = ?sender then ?sb - amt else get_balance recipient s"
  let ?ok = "amt \<le> ?sb \<and> 0 < amt \<and> unat ?rb + unat amt < 2 ^ 64 \<and>
     (?rb = 0 \<longrightarrow> unat (active_users s) + 1 < 2 ^ 64) \<and> unat (total_transactions s) + 1 < 2 ^ 64"
  have succeeds: "(\<exists>r. send_money ctx recipient amt note s = Inr r) \<longleftrightarrow> ?ok"
  proof
    assume "\<exists>r. send_money ctx recipient amt note s = Inr r"
    then obtain tid s' where "send_money ctx recipient amt note s = Inr (tid, s')" by auto
    then show ?ok unfolding send_money_Inr Let_def by blast
  next
    assume ok: ?ok
    define s' where "s' = s\<lparr> balances := (balances s)(?sender \<mapsto> ?sb - amt, recipient \<mapsto> ?rb + amt),
        active_users := (if ?rb = 0 then active_users s + 1 else active_users s),
        total_transactions := total_transactions s + 1,
        pay_trace := pay_trace s @
          [Box_write (Put_balance ?sender (?sb - amt)), Box_write (Put_balance recipient (?rb + amt))] \<rparr>"
    have "send_money ctx recipient amt note s = Inr (total_transactions s + 1, s')"
      unfolding send_money_Inr Let_def s'_def using ok by blast
    then show "\<exists>r. send_money ctx recipient amt note s = Inr r" by blast
  qed
  have effect: "tid = total_transactions s + 1 \<and> total_transactions s' = tid \<and>
      unat tid = unat (total_transactions s) + 1 \<and>
      balances s' = (balances s)(?sender \<mapsto> ?sb - amt, recipient \<mapsto> ?rb + amt) \<and>
      unat (?sb - amt) = unat ?sb - unat amt \<and>
      unat (?rb + amt) = unat ?rb + unat amt \<and>
      payments (pay_trace s') = payments (pay_trace s)"
    if run: "send_money ctx recipient amt note s = Inr (tid, s')" for tid s'
  proof -
    from run have le: "amt \<le> ?sb" and fits: "unat ?rb + unat amt < 2 ^ 64"
      and cnt: "unat (total_transactions s) + 1 < 2 ^ 64" and tid: "tid = total_transactions s + 1"
      and s': "s' = s\<lparr> balances := (balances s)(?sender \<mapsto> ?sb - amt, recipient \<mapsto> ?rb + amt),
        active_users := (if ?rb = 0 then active_users s + 1 else active_users s),
        total_transactions := tid,
        pay_trace := pay_trace s @
          [Box_write (Put_balance ?sender (?sb - amt)), Box_write (Put_balance recipient (?rb + amt))] \<rparr>"
      unfolding send_money_Inr Let_def by blast+
    have "unat tid = unat (total_transactions s) + 1"
      using cnt unat_u64_add [of "total_transactions s" 1] by (simp add: tid)
    moreover have "unat (?sb - amt) = unat ?sb - unat amt"
      using le by (rule unat_u64_sub)
    moreover have "unat (?rb + amt) = unat ?rb + unat amt"
      using fits by (rule unat_u64_add)
    moreover have "payments (pay_trace s') = payments (pay_trace s)"
      by (simp add: s' payments_append)
    ultimately show ?thesis using tid by (simp add: s')
  qed
  from succeeds effect show ?thesis unfolding Let_def by blast
qed

theorem send_money_spec_witness:
  "send_money \<lparr> txn_sender = 1, current_application_address = 0, creator_address = 0, latest_timestamp = 0 \<rparr>
     2 5 ''mess bill'' (payment_init\<lparr> balances := [1 \<mapsto> 10] \<rparr>)
   = Inr (1, payment_init\<lparr> balances := [1 \<mapsto> 5, 2 \<mapsto> 5], active_users := 1, total_transactions := 1,
        pay_trace := [Box_write (Put_balance 1 5), Box_write (Put_balance 2 5)] \<rparr>)"
proof -
  let ?ctx = "\<lparr> txn_sender = 1, current_application_address = 0, creator_address = 0, latest_timestamp = 0 \<rparr>"
  let ?s = "payment_init\<lparr> balances := [1 \<mapsto> 10] \<rparr>"
  have "\<exists>r. send_money ?ctx 2 5 ''mess bill'' ?s = Inr r"
    using send_money_spec [of ?ctx ?s 2 5 "''mess bill''"]
    by (simp add: Let_def get_balance_def box_get_def payment_init_def)
  then obtain tid s' where r: "send_money ?ctx 2 5 ''mess bill'' ?s = Inr (tid, s')" by auto
  then show ?thesis
    unfolding send_money_Inr by (simp add: Let_def get_balance_def box_get_def payment_init_def)
qed

text \<open>
  The claim as stated fails where a counter is full.  After a deposit of 10 by account 1
  and \<open>2\<^sup>6\<^sup>4 - 2\<close> transfers between accounts 1 and 2 the ledger holds 4 and 6, two
  active users, and a transaction counter of \<open>2\<^sup>6\<^sup>4 - 1\<close>.  Account 1 then sends 1: the
  balance is sufficient and the amount positive, but the call fails on the increment of
  the counter.  (The trace is bookkeeping of the model, which \<^verbatim>\<open>send_money\<close> never reads;
  it is left empty here.)
\<close>

theorem send_money_counterexample:
  "(1 :: u64) \<le> get_balance 1
      \<lparr> balances = [1 \<mapsto> 4, 2 \<mapsto> 6], campus_verified = Map.empty, campus_id = Map.empty,
        total_volume = 10, total_transactions = 18446744073709551615, active_users = 2,
        pay_trace = [] \<rparr>
   \<and> (0 :: u64) < 1
   \<and> send_money \<lparr> txn_sender = 1, current_application_address = 9, creator_address = 0, latest_timestamp = 0 \<rparr>
        2 1 ''mess bill''
      \<lparr> balances = [1 \<mapsto> 4, 2 \<mapsto> 6], campus_verified = Map.empty, campus_id = Map.empty,
        total_volume = 10, total_transactions = 18446744073709551615, active_users = 2,
        pay_trace = [] \<rparr>
      = Inl Arith_overflow"
  by (simp add: send_money_def get_balance_def box_get_def put_balance_def
      Let_def bind_def u64_sub_def u64_add_def)

section \<open>The group contribution escrow\<close>

lemma create_group_Inr:
  "create_group ctx ta n d p descr s = Inr (gid, s') \<longleftrightarrow>
     2 \<le> n \<and> n \<le> 50 \<and> 0 < ta \<and> latest_timestamp ctx < d \<and> p \<le> 1000 \<and>
     unat (next_group_id s) + 1 < 2 ^ 64 \<and> unat (total_groups s) + 1 < 2 ^ 64 \<and>
     gid = next_group_id s \<and>
     s' = s\<lparr> groups := (groups s)(next_group_id s \<mapsto>
                 \<lparr> g_creator = txn_sender ctx, total_amount = ta, num_members = n,
                   total_contributed = 0, settled = False, g_deadline = d, penalty_rate = p \<rparr>),
             next_group_id := next_group_id s + 1,
             total_groups := total_groups s + 1,
             exp_trace := exp_trace s @ [Box_write (Put_group (next_group_id s)
                 \<lparr> g_creator = txn_sender ctx, total_amount = ta, num_members = n,
                   total_contributed = 0, settled = False, g_deadline = d, penalty_rate = p \<rparr>)] \<rparr>"
  by (auto simp: create_group_def Let_def bind_Inr u64_add_Inr put_group_def)

lemma contribute_Inr:
  "contribute ctx gid payment s = Inr s' \<longleftrightarrow>
     (\<exists>grp. groups s gid = Some grp \<and> \<not> settled grp \<and>
        receiver payment = current_application_address ctx \<and>
        num_members grp \<noteq> 0 \<and>
        total_amount grp div num_members grp \<le> amount payment \<and>
        unat (get_contribution gid (txn_sender ctx) s) + unat (amount payment) < 2 ^ 64 \<and>
        unat (total_contributed grp) + unat (amount payment) < 2 ^ 64 \<and>
        s' = s\<lparr> contributions := (contributions s)((gid, txn_sender ctx) \<mapsto>
                    get_contribution gid (txn_sender ctx) s + amount payment),
                groups := (groups s)(gid \<mapsto>
                    grp\<lparr> total_contributed := total_contributed grp + amount payment \<rparr>),
                exp_trace := exp_trace s @
                  [Box_write (Put_contribution (gid, txn_sender ctx)
                     (get_contribution gid (txn_sender ctx) s + amount payment)),
                   Box_write (Put_group gid
                     (grp\<lparr> total_contributed := total_contributed grp + amount payment \<rparr>))] \<rparr>)"
  by (auto simp: contribute_def Let_def bind_Inr u64_add_Inr u64_floordiv_Inr put_group_def
        put_contribution_def get_contribution_def split: option.splits)

lemma settle_group_Inr:
  "settle_group ctx gid s = Inr s' \<longleftrightarrow>
     (\<exists>grp. groups s gid = Some grp \<and> txn_sender ctx = g_creator grp \<and>
        total_amount grp \<le> total_contributed grp \<and> \<not> settled grp \<and>
        unat (total_split s) + unat (total_amount grp) < 2 ^ 64 \<and>
        s' = s\<lparr> groups := (groups s)(gid \<mapsto> grp\<lparr> settled := True \<rparr>),
                total_split := total_split s + total_amount grp,
                exp_trace := exp_trace s @
                  [Box_write (Put_group gid (grp\<lparr> settled := True \<rparr>)),
                   Inner_txn (Payment (g_creator grp) (total_amount grp) 0)] \<rparr>)"
  by (auto simp: settle_group_def Let_def bind_Inr u64_add_Inr put_group_def exp_submit_def
        split: option.splits)


lemma expense_inv_init: "expense_inv expense_init"
  by (simp add: expense_inv_def expense_init_def)

lemma create_group_groups:
  assumes "create_group ctx ta n d p descr s = Inr (gid, s')"
  shows "gid = next_group_id s" and "2 \<le> n" and "unat (next_group_id s) + 1 < 2 ^ 64"
    and "next_group_id s' = next_group_id s + 1"
    and "groups s' = (groups s)(next_group_id s \<mapsto>
                 \<lparr> g_creator = txn_sender ctx, total_amount = ta, num_members = n,
                   total_contributed = 0, settled = False, g_deadline = d, penalty_rate = p \<rparr>)"
  using assms by (simp_all add: create_group_Inr)

lemma contribute_groups:
  assumes "contribute ctx gid payment s = Inr s'"
  obtains grp where "groups s gid = Some grp" and "\<not> settled grp"
    and "next_group_id s' = next_group_id s"
    and "groups s' = (groups s)(gid \<mapsto> grp\<lparr> total_contributed := total_contributed grp + amount payment \<rparr>)"
  using assms by (auto simp: contribute_Inr)

lemma settle_group_groups:
  assumes "settle_group ctx gid s = Inr s'"
  obtains grp where "groups s gid = Some grp" and "\<not> settled grp"
    and "next_group_id s' = next_group_id s"
    and "groups s' = (groups s)(gid \<mapsto> grp\<lparr> settled := True \<rparr>)"
  using assms by (auto simp: settle_group_Inr)

lemma create_group_inv:
  assumes "expense_inv s" and "create_group ctx ta n d p descr s = Inr (gid, s')"
  shows "expense_inv s'"
proof -
  note c = create_group_groups [OF assms(2)]
  show ?thesis
    unfolding expense_inv_def c(4) c(5)
    using assms(1) c(2) word_less_succ [OF c(3)]
    by (auto simp: expense_inv_def)
qed

lemma contribute_inv:
  assumes "expense_inv s" and "contribute ctx gid payment s = Inr s'"
  shows "expense_inv s'"
proof -
  from assms(2) obtain grp where g: "groups s gid = Some grp" 
    and nx: "next_group_id s' = next_group_id s"
    and gs: "groups s' = (groups s)(gid \<mapsto> grp\<lparr> total_contributed := total_contributed grp + amount payment \<rparr>)"
    by (rule contribute_groups)
  show ?thesis
    unfolding expense_inv_def nx gs using assms(1) g
    by (auto simp: expense_inv_def)
qed

lemma settle_group_inv:
  assumes "expense_inv s" and "settle_group ctx gid s = Inr s'"
  shows "expense_inv s'"
proof -
  from assms(2) obtain grp where g: "groups s gid = Some grp" 
    and nx: "next_group_id s' = next_group_id s"
    and gs: "groups s' = (groups s)(gid \<mapsto> grp\<lparr> settled := True \<rparr>)"
    by (rule settle_group_groups)
  show ?thesis
    unfolding expense_inv_def nx gs using assms(1) g
    by (auto simp: expense_inv_def)
qed

lemma expense_step_inv: "expense_inv s \<Longrightarrow> expense_inv (expense_step c s)"
proof (cases c)
  case (Create_group ctx ta n d p descr)
  assume "expense_inv s"
  with Create_group show ?thesis
    by (auto split: sum.splits dest: create_group_inv)
next
  case (Contribute ctx gid p)
  assume "expense_inv s"
  with Contribute show ?thesis
    by (auto split: sum.splits dest: contribute_inv)
next
  case (Settle_group ctx gid)
  assume "expense_inv s"
  with Settle_group show ?thesis
    by (auto split: sum.splits dest: settle_group_inv)
qed

lemma run_expense_inv: "expense_inv s \<Longrightarrow> expense_inv (run_expense cs s)"
  by (induction cs arbitrary: s) (simp_all add: expense_step_inv)

text \<open>A settled group's record is never written again.\<close>

lemma expense_step_settled:
  assumes "expense_inv s" and "groups s gid = Some grp" and "settled grp"
  shows "groups (expense_step c s) gid = Some grp"
proof (cases c)
  case (Create_group ctx ta n d p descr)
  show ?thesis
  proof (cases "create_group ctx ta n d p descr s")
    case (Inl e)
    with Create_group assms(2) show ?thesis by simp
  next
    case (Inr r)
    obtain k s' where r: "r = (k, s')" by (cases r)
    with Inr Create_group have step: "expense_step c s = s'" by simp
    from assms(1,2) have "gid \<noteq> next_group_id s"
      by (auto simp: expense_inv_def)
    with create_group_groups(5) [OF Inr [unfolded r]] assms(2) show ?thesis
      unfolding step by simp
  qed
next
  case (Contribute ctx k p)
  show ?thesis
  proof (cases "contribute ctx k p s")
    case (Inl e)
    with Contribute assms(2) show ?thesis by simp
  next
    case (Inr s')
    with Contribute have step: "expense_step c s = s'" by simp
    from Inr obtain g where g: "groups s k = Some g" "\<not> settled g"
      and gs: "groups s' = (groups s)(k \<mapsto> g\<lparr> total_contributed := total_contributed g + amount p \<rparr>)"
      by (rule contribute_groups)
    from g assms(2,3) have "k \<noteq> gid" by auto
    with gs assms(2) show ?thesis unfolding step by simp
  qed
next
  case (Settle_group ctx k)
  show ?thesis
  proof (cases "settle_group ctx k s")
    case (Inl e)
    with Settle_group assms(2) show ?thesis by simp
  next
    case (Inr s')
    with Settle_group have step: "expense_step c s = s'" by simp
    from Inr obtain g where g: "groups s k = Some g" "\<not> settled g"
      and gs: "groups s' = (groups s)(k \<mapsto> g\<lparr> settled := True \<rparr>)"
      by (rule settle_group_groups)
    from g assms(2,3) have "k \<noteq> gid" by auto
    with gs assms(2) show ?thesis unfolding step by simp
  qed
qed

lemma run_expense_settled:
  "expense_inv s \<Longrightarrow> groups s gid = Some grp \<Longrightarrow> settled grp \<Longrightarrow>
     groups (run_expense cs s) gid = Some grp"
proof (induction cs arbitrary: s)
  case Nil
  then show ?case by simp
next
  case (Cons c cs)
  from Cons.prems have "groups (expense_step c s) gid = Some grp"
    by (rule expense_step_settled)
  moreover from Cons.prems(1) have "expense_inv (expense_step c s)"
    by (rule expense_step_inv)
  ultimately show ?case using Cons.IH Cons.prems(3) by simp
qed

lemma settle_group_settled_fails:
  assumes "groups s gid = Some grp" and "settled grp"
  shows "settle_group ctx gid s =
     Inl (if txn_sender ctx \<noteq> g_creator grp then Only_creator_can_settle
          else if \<not> total_amount grp \<le> total_contributed grp then Not_fully_funded
          else Already_settled)"
  using assms by (simp add: settle_group_def)

lemmas expense_eval = create_group_def contribute_def settle_group_def put_group_def
  put_contribution_def exp_submit_def expense_init_def bind_def u64_add_def u64_floordiv_def Let_def

text \<open>
  \<^verbatim>\<open>settle_group\<close> writes the group with \<open>settled = True\<close> first and submits the payment
  second.
\<close>

lemma settle_group_writes_then_pays:
  assumes "settle_group ctx gid s = Inr s'" and "groups s gid = Some grp"
  shows "exp_trace s' = exp_trace s @
     [Box_write (Put_group gid (grp\<lparr> settled := True \<rparr>)),
      Inner_txn (Payment (g_creator grp) (total_amount grp) 0)]"
  using assms by (auto simp: settle_group_Inr)

text \<open>
  Claim C4.  A successful \<^verbatim>\<open>settle_group\<close> was called by the group's creator on a group
  with \<open>total_contributed \<ge> total_amount\<close> and \<open>settled = False\<close>; it stores the group
  with \<open>settled = True\<close> and then pays exactly \<open>total_amount\<close> to the creator.  In any
  history of the contract, after that success and any further calls, the group's record
  still has \<open>settled = True\<close> and every \<^verbatim>\<open>settle_group\<close> call on it fails (with
  ``Already settled'' when the creator calls).
\<close>

theorem settle_group_once:
  assumes "settle_group ctx gid s = Inr s'"
  shows "\<exists>grp. groups s gid = Some grp \<and>
           txn_sender ctx = g_creator grp \<and>
           total_amount grp \<le> total_contributed grp \<and>
           \<not> settled grp \<and>
           groups s' gid = Some (grp\<lparr> settled := True \<rparr>) \<and>
           exp_trace s' = exp_trace s @
             [Box_write (Put_group gid (grp\<lparr> settled := True \<rparr>)),
              Inner_txn (Payment (g_creator grp) (total_amount grp) 0)] \<and>
           (\<forall>history later ctx'. s = run_expense history expense_init \<longrightarrow>
              groups (run_expense later s') gid = Some (grp\<lparr> settled := True \<rparr>) \<and>
              (\<exists>e. settle_group ctx' gid (run_expense later s') = Inl e) \<and>
              (txn_sender ctx' = g_creator grp \<longrightarrow>
                 settle_group ctx' gid (run_expense later s') = Inl Already_settled))"
proof -
  from assms obtain grp where g: "groups s gid = Some grp" "txn_sender ctx = g_creator grp"
      "total_amount grp \<le> total_contributed grp" "\<not> settled grp"
    and s': "s' = s\<lparr> groups := (groups s)(gid \<mapsto> grp\<lparr> settled := True \<rparr>),
                total_split := total_split s + total_amount grp,
                exp_trace := exp_trace s @
                  [Box_write (Put_group gid (grp\<lparr> settled := True \<rparr>)),
                   Inner_txn (Payment (g_creator grp) (total_amount grp) 0)] \<rparr>"
    unfolding settle_group_Inr by blast
  let ?g = "grp\<lparr> settled := True \<rparr>"
  have now: "groups s' gid = Some ?g" by (simp add: s')
  have later: "groups (run_expense later s') gid = Some ?g \<and>
        (\<exists>e. settle_group ctx' gid (run_expense later s') = Inl e) \<and>
        (txn_sender ctx' = g_creator grp \<longrightarrow>
           settle_group ctx' gid (run_expense later s') = Inl Already_settled)"
    if reach: "s = run_expense history expense_init" for history later ctx'
  proof -
    have "expense_inv s" unfolding reach using expense_inv_init by (rule run_expense_inv)
    then have "expense_inv s'" using assms by (rule settle_group_inv)
    then have kept: "groups (run_expense later s') gid = Some ?g"
      using now by (rule run_expense_settled) simp
    from settle_group_settled_fails [OF kept, of ctx'] g(3) show ?thesis
      using kept by simp
  qed
  from g now later show ?thesis by (auto simp: s')
qed


text \<open>
  The scenario of the specification: a group of four splits 100, each member pays 25, and
  the creator settles.  The first \<^verbatim>\<open>settle_group\<close> succeeds, stores the group with
  \<open>settled = True\<close> and then pays 100 to the creator; the creator's second call fails.
\<close>

theorem settle_group_once_witness:
  "settle_group \<lparr> txn_sender = 1, current_application_address = 9, creator_address = 0, latest_timestamp = 5 \<rparr> 0
     (run_expense
         [Create_group \<lparr> txn_sender = 1, current_application_address = 9, creator_address = 0, latest_timestamp = 0 \<rparr>
            100 4 10 0 ''mess bill'',
          Contribute \<lparr> txn_sender = 1, current_application_address = 9, creator_address = 0, latest_timestamp = 1 \<rparr> 0
            \<lparr> receiver = 9, amount = 25 \<rparr>,
          Contribute \<lparr> txn_sender = 2, current_application_address = 9, creator_address = 0, latest_timestamp = 2 \<rparr> 0
            \<lparr> receiver = 9, amount = 25 \<rparr>,
          Contribute \<lparr> txn_sender = 3, current_application_address = 9, creator_address = 0, latest_timestamp = 3 \<rparr> 0
            \<lparr> receiver = 9, amount = 25 \<rparr>,
          Contribute \<lparr> txn_sender = 4, current_application_address = 9, creator_address = 0, latest_timestamp = 4 \<rparr> 0
            \<lparr> receiver = 9, amount = 25 \<rparr>]
         expense_init)
   = Inr ((run_expense
         [Create_group \<lparr> txn_sender = 1, current_application_address = 9, creator_address = 0, latest_timestamp = 0 \<rparr>
            100 4 10 0 ''mess bill'',
          Contribute \<lparr> txn_sender = 1, current_application_address = 9, creator_address = 0, latest_timestamp = 1 \<rparr> 0
            \<lparr> receiver = 9, amount = 25 \<rparr>,
          Contribute \<lparr> txn_sender = 2, current_application_address = 9, creator_address = 0, latest_timestamp = 2 \<rparr> 0
            \<lparr> receiver = 9, amount = 25 \<rparr>,
          Contribute \<lparr> txn_sender = 3, current_application_address = 9, creator_address = 0, latest_timestamp = 3 \<rparr> 0
            \<lparr> receiver = 9, amount = 25 \<rparr>,
          Contribute \<lparr> txn_sender = 4, current_application_address = 9, creator_address = 0, latest_timestamp = 4 \<rparr> 0
            \<lparr> receiver = 9, amount = 25 \<rparr>]
         expense_init)
       \<lparr> groups := (groups (run_expense
         [Create_group \<lparr> txn_sender = 1, current_application_address = 9, creator_address = 0, latest_timestamp = 0 \<rparr>
            100 4 10 0 ''mess bill'',
          Contribute \<lparr> txn_sender = 1, current_application_address = 9, creator_address = 0, latest_timestamp = 1 \<rparr> 0
            \<lparr> receiver = 9, amount = 25 \<rparr>,
          Contribute \<lparr> txn_sender = 2, current_application_address = 9, creator_address = 0, latest_timestamp = 2 \<rparr> 0
            \<lparr> receiver = 9, amount = 25 \<rparr>,
          Contribute \<lparr> txn_sender = 3, current_application_address = 9, creator_address = 0, latest_timestamp = 3 \<rparr> 0
            \<lparr> receiver = 9, amount = 25 \<rparr>,
          Contribute \<lparr> txn_sender = 4, current_application_address = 9, creator_address = 0, latest_timestamp = 4 \<rparr> 0
            \<lparr> receiver = 9, amount = 25 \<rparr>]
         expense_init))(0 \<mapsto>
              \<lparr> g_creator = 1, total_amount = 100, num_members = 4,
                total_contributed = 100, settled = True, g_deadline = 10, penalty_rate = 0 \<rparr>),
         total_split := 100,
         exp_trace := exp_trace (run_expense
         [Create_group \<lparr> txn_sender = 1, current_application_address = 9, creator_address = 0, latest_timestamp = 0 \<rparr>
            100 4 10 0 ''mess bill'',
          Contribute \<lparr> txn_sender = 1, current_application_address = 9, creator_address = 0, latest_timestamp = 1 \<rparr> 0
            \<lparr> receiver = 9, amount = 25 \<rparr>,
          Contribute \<lparr> txn_sender = 2, current_application_address = 9, creator_address = 0, latest_timestamp = 2 \<rparr> 0
            \<lparr> receiver = 9, amount = 25 \<rparr>,
          Contribute \<lparr> txn_sender = 3, current_application_address = 9, creator_address = 0, latest_timestamp = 3 \<rparr> 0
            \<lparr> receiver = 9, amount = 25 \<rparr>,
          Contribute \<lparr> txn_sender = 4, current_application_address = 9, creator_address = 0, latest_timestamp = 4 \<rparr> 0
            \<lparr> receiver = 9, amount = 25 \<rparr>]
         expense_init) @
           [Box_write (Put_group 0
              \<lparr> g_creator = 1, total_amount = 100, num_members = 4,
                total_contributed = 100, settled = True, g_deadline = 10, penalty_rate = 0 \<rparr>),
            Inner_txn (Payment 1 100 0)] \<rparr>)
   \<and> payments (exp_trace (expense_step (Settle_group \<lparr> txn_sender = 1, current_application_address = 9, creator_address = 0, latest_timestamp = 5 \<rparr> 0)
     (run_expense
         [Create_group \<lparr> txn_sender = 1, current_application_address = 9, creator_address = 0, latest_timestamp = 0 \<rparr>
            100 4 10 0 ''mess bill'',
          Contribute \<lparr> txn_sender = 1, current_application_address = 9, creator_address = 0, latest_timestamp = 1 \<rparr> 0
            \<lparr> receiver = 9, amount = 25 \<rparr>,
          Contribute \<lparr> txn_sender = 2, current_application_address = 9, creator_address = 0, latest_timestamp = 2 \<rparr> 0
            \<lparr> receiver = 9, amount = 25 \<rparr>,
          Contribute \<lparr> txn_sender = 3, current_application_address = 9, creator_address = 0, latest_timestamp = 3 \<rparr> 0
            \<lparr> receiver = 9, amount = 25 \<rparr>,
          Contribute \<lparr> txn_sender = 4, current_application_address = 9, creator_address = 0, latest_timestamp = 4 \<rparr> 0
            \<lparr> receiver = 9, amount = 25 \<rparr>]
         expense_init)))
     = [(1, 100)]
   \<and> settle_group \<lparr> txn_sender = 1, current_application_address = 9, creator_address = 0, latest_timestamp = 6 \<rparr> 0
     (expense_step (Settle_group \<lparr> txn_sender = 1, current_application_address = 9, creator_address = 0, latest_timestamp = 5 \<rparr> 0)
       (run_expense
         [Create_group \<lparr> txn_sender = 1, current_application_address = 9, creator_address = 0, latest_timestamp = 0 \<rparr>
            100 4 10 0 ''mess bill'',
          Contribute \<lparr> txn_sender = 1, current_application_address = 9, creator_address = 0, latest_timestamp = 1 \<rparr> 0
            \<lparr> receiver = 9, amount = 25 \<rparr>,
          Contribute \<lparr> txn_sender = 2, current_application_address = 9, creator_address = 0, latest_timestamp = 2 \<rparr> 0
            \<lparr> receiver = 9, amount = 25 \<rparr>,
          Contribute \<lparr> txn_sender = 3, current_application_address = 9, creator_address = 0, latest_timestamp = 3 \<rparr> 0
            \<lparr> receiver = 9, amount = 25 \<rparr>,
          Contribute \<lparr> txn_sender = 4, current_application_address = 9, creator_address = 0, latest_timestamp = 4 \<rparr> 0
            \<lparr> receiver = 9, amount = 25 \<rparr>]
         expense_init))
   = Inl Already_settled"
proof -
  let ?c = "\<lparr> txn_sender = 1, current_application_address = 9, creator_address = 0, latest_timestamp = 5 \<rparr>"
  let ?c' = "\<lparr> txn_sender = 1, current_application_address = 9, creator_address = 0, latest_timestamp = 6 \<rparr>"
  let ?h = "[Create_group \<lparr> txn_sender = 1, current_application_address = 9, creator_address = 0, latest_timestamp = 0 \<rparr>
            100 4 10 0 ''mess bill'',
          Contribute \<lparr> txn_sender = 1, current_application_address = 9, creator_address = 0, latest_timestamp = 1 \<rparr> 0
            \<lparr> receiver = 9, amount = 25 \<rparr>,
          Contribute \<lparr> txn_sender = 2, current_application_address = 9, creator_address = 0, latest_timestamp = 2 \<rparr> 0
            \<lparr> receiver = 9, amount = 25 \<rparr>,
          Contribute \<lparr> txn_sender = 3, current_application_address = 9, creator_address = 0, latest_timestamp = 3 \<rparr> 0
            \<lparr> receiver = 9, amount = 25 \<rparr>,
          Contribute \<lparr> txn_sender = 4, current_application_address = 9, creator_address = 0, latest_timestamp = 4 \<rparr> 0
            \<lparr> receiver = 9, amount = 25 \<rparr>]"
  define s where "s = run_expense ?h expense_init"
  let ?g = "\<lparr> g_creator = 1, total_amount = 100, num_members = 4,
                total_contributed = 100, settled = True, g_deadline = 10, penalty_rate = 0 \<rparr>"
  have g0: "groups s 0 = Some \<lparr> g_creator = 1, total_amount = 100, num_members = 4,
      total_contributed = 100, settled = False, g_deadline = 10, penalty_rate = 0 \<rparr>"
    and split0: "total_split s = 0"
    and pay0: "payments (exp_trace s) = []"
    unfolding s_def by (simp_all add: expense_eval)
  define s' where "s' = s\<lparr> groups := (groups s)(0 \<mapsto> ?g), total_split := 100,
      exp_trace := exp_trace s @ [Box_write (Put_group 0 ?g), Inner_txn (Payment 1 100 0)] \<rparr>"
  have run: "settle_group ?c 0 s = Inr s'"
    unfolding settle_group_Inr s'_def using g0 split0 by simp
  have paid: "payments (exp_trace s') = [(1, 100)]"
    unfolding s'_def using pay0 by (simp add: payments_append)
  from settle_group_once [OF run] obtain grp where grp: "groups s 0 = Some grp"
    and after: "\<forall>history later ctx'. s = run_expense history expense_init \<longrightarrow>
        groups (run_expense later s') 0 = Some (grp\<lparr> settled := True \<rparr>) \<and>
        (\<exists>e. settle_group ctx' 0 (run_expense later s') = Inl e) \<and>
        (txn_sender ctx' = g_creator grp \<longrightarrow>
           settle_group ctx' 0 (run_expense later s') = Inl Already_settled)"
    by blast
  from grp g0 have "txn_sender ?c' = g_creator grp" by auto
  with after [rule_format, of ?h "[]" ?c'] have again: "settle_group ?c' 0 s' = Inl Already_settled"
    by (simp add: s_def)
  from run have step: "expense_step (Settle_group ?c 0) s = s'" by simp
  from run paid again have "settle_group ?c 0 s = Inr s' \<and>
      payments (exp_trace (expense_step (Settle_group ?c 0) s)) = [(1, 100)] \<and>
      settle_group ?c' 0 (expense_step (Settle_group ?c 0) s) = Inl Already_settled"
    unfolding step by blast
  then show ?thesis unfolding s'_def s_def .
qed

lemma run_expense_reachable_inv: "expense_inv (run_expense history expense_init)"
  using expense_inv_init by (rule run_expense_inv)

text \<open>
  Claim C5, as amended.  In a reachable state \<^verbatim>\<open>contribute\<close> succeeds exactly when the
  group exists, is unsettled, the payment's receiver is the program, the amount is at
  least \<open>total_amount div num_members\<close> (floor division), and neither the caller's
  accumulated contribution nor the group's \<open>total_contributed\<close> would leave the 64-bit
  range.  On success the full amount is added to both; there is no other cap.
\<close>

theorem contribute_spec:
  assumes "s = run_expense history expense_init"
  shows "((\<exists>s'. contribute ctx gid payment s = Inr s') \<longleftrightarrow>
          (\<exists>grp. groups s gid = Some grp \<and> \<not> settled grp \<and>
             receiver payment = current_application_address ctx \<and>
             unat (total_amount grp) div unat (num_members grp) \<le> unat (amount payment) \<and>
             unat (get_contribution gid (txn_sender ctx) s) + unat (amount payment) < 2 ^ 64 \<and>
             unat (total_contributed grp) + unat (amount payment) < 2 ^ 64)) \<and>
         (\<forall>s' grp. contribute ctx gid payment s = Inr s' \<and> groups s gid = Some grp \<longrightarrow>
             contributions s' = (contributions s)((gid, txn_sender ctx) \<mapsto>
                 get_contribution gid (txn_sender ctx) s + amount payment) \<and>
             unat (get_contribution gid (txn_sender ctx) s') =
               unat (get_contribution gid (txn_sender ctx) s) + unat (amount payment) \<and>
             groups s' = (groups s)(gid \<mapsto>
                 grp\<lparr> total_contributed := total_contributed grp + amount payment \<rparr>) \<and>
             unat (total_contributed grp + amount payment) =
               unat (total_contributed grp) + unat (amount payment))"
proof -
  have inv: "expense_inv s" unfolding assms by (rule run_expense_reachable_inv)
  have members: "num_members grp \<noteq> 0" if "groups s gid = Some grp" for grp
  proof -
    from inv that have "2 \<le> num_members grp" by (auto simp: expense_inv_def)
    then show ?thesis by auto
  qed
  have share: "total_amount grp div num_members grp \<le> amount payment \<longleftrightarrow>
      unat (total_amount grp) div unat (num_members grp) \<le> unat (amount payment)" for grp
    by (simp add: word_le_nat_alt unat_div)
  have succeeds: "(\<exists>s'. contribute ctx gid payment s = Inr s') \<longleftrightarrow>
          (\<exists>grp. groups s gid = Some grp \<and> \<not> settled grp \<and>
             receiver payment = current_application_address ctx \<and>
             unat (total_amount grp) div unat (num_members grp) \<le> unat (amount payment) \<and>
             unat (get_contribution gid (txn_sender ctx) s) + unat (amount payment) < 2 ^ 64 \<and>
             unat (total_contributed grp) + unat (amount payment) < 2 ^ 64)"
    unfolding contribute_Inr using members share by auto
  have effect: "contributions s' = (contributions s)((gid, txn_sender ctx) \<mapsto>
                 get_contribution gid (txn_sender ctx) s + amount payment) \<and>
             unat (get_contribution gid (txn_sender ctx) s') =
               unat (get_contribution gid (txn_sender ctx) s) + unat (amount payment) \<and>
             groups s' = (groups s)(gid \<mapsto>
                 grp\<lparr> total_contributed := total_contributed grp + amount payment \<rparr>) \<and>
             unat (total_contributed grp + amount payment) =
               unat (total_contributed grp) + unat (amount payment)"
    if run: "contribute ctx gid payment s = Inr s'" and g: "groups s gid = Some grp" for s' grp
  proof -
    from run g have f1: "unat (get_contribution gid (txn_sender ctx) s) + unat (amount payment) < 2 ^ 64"
      and f2: "unat (total_contributed grp) + unat (amount payment) < 2 ^ 64"
      and c: "contributions s' = (contributions s)((gid, txn_sender ctx) \<mapsto>
                 get_contribution gid (txn_sender ctx) s + amount payment)"
      and gs: "groups s' = (groups s)(gid \<mapsto>
                 grp\<lparr> total_contributed := total_contributed grp + amount payment \<rparr>)"
      unfolding contribute_Inr by auto
    have "get_contribution gid (txn_sender ctx) s' = get_contribution gid (txn_sender ctx) s + amount payment"
      by (simp add: c get_contribution_def)
    with f1 f2 c gs show ?thesis by (simp add: unat_u64_add)
  qed
  from succeeds effect show ?thesis by blast
qed

theorem contribute_spec_witness:
  "\<exists>s'. contribute \<lparr> txn_sender = 2, current_application_address = 9, creator_address = 0, latest_timestamp = 1 \<rparr> 0
         \<lparr> receiver = 9, amount = 30 \<rparr>
       (run_expense
         [Create_group \<lparr> txn_sender = 1, current_application_address = 9, creator_address = 0, latest_timestamp = 0 \<rparr>
            100 4 10 0 ''mess bill''] expense_init) = Inr s'"
proof -
  let ?h = "[Create_group \<lparr> txn_sender = 1, current_application_address = 9, creator_address = 0, latest_timestamp = 0 \<rparr>
            100 4 10 0 ''mess bill'']"
  show ?thesis
    using contribute_spec [OF refl, of
        "\<lparr> txn_sender = 2, current_application_address = 9, creator_address = 0, latest_timestamp = 1 \<rparr>"
        0 "\<lparr> receiver = 9, amount = 30 \<rparr>" ?h]
    by (simp add: expense_eval get_contribution_def)
qed

text \<open>
  The claim as stated fails at the top of the 64-bit range: a group of two splits 2, one
  member pays \<open>2\<^sup>6\<^sup>4 - 1\<close>, and the next member's payment of the share 1 meets all four
  stated conditions but fails on the addition to \<open>total_contributed\<close>.
\<close>

theorem contribute_counterexample:
  "groups (run_expense
      [Create_group \<lparr> txn_sender = 1, current_application_address = 9, creator_address = 0, latest_timestamp = 0 \<rparr>
         2 2 10 0 ''rent'',
       Contribute \<lparr> txn_sender = 2, current_application_address = 9, creator_address = 0, latest_timestamp = 1 \<rparr> 0
         \<lparr> receiver = 9, amount = 18446744073709551615 \<rparr>] expense_init) 0
    = Some \<lparr> g_creator = 1, total_amount = 2, num_members = 2, total_contributed = 18446744073709551615,
             settled = False, g_deadline = 10, penalty_rate = 0 \<rparr>
   \<and> (2 :: u64) div 2 \<le> 1
   \<and> contribute \<lparr> txn_sender = 3, current_application_address = 9, creator_address = 0, latest_timestamp = 2 \<rparr> 0
         \<lparr> receiver = 9, amount = 1 \<rparr>
       (run_expense
      [Create_group \<lparr> txn_sender = 1, current_application_address = 9, creator_address = 0, latest_timestamp = 0 \<rparr>
         2 2 10 0 ''rent'',
       Contribute \<lparr> txn_sender = 2, current_application_address = 9, creator_address = 0, latest_timestamp = 1 \<rparr> 0
         \<lparr> receiver = 9, amount = 18446744073709551615 \<rparr>] expense_init)
     = Inl Arith_overflow"
  by (simp add: expense_eval)

section \<open>The milestone fundraising escrow\<close>

lemma create_campaign_Inr:
  "create_campaign ctx g n d title descr s = Inr (cid, s') \<longleftrightarrow>
     0 < g \<and> 1 \<le> n \<and> n \<le> 10 \<and> latest_timestamp ctx < d \<and>
     unat (next_campaign_id s) + 1 < 2 ^ 64 \<and> unat (total_campaigns s) + 1 < 2 ^ 64 \<and>
     cid = next_campaign_id s \<and>
     s' = s\<lparr> campaigns := (campaigns s)(next_campaign_id s \<mapsto>
                 \<lparr> c_creator = txn_sender ctx, goal = g, raised = 0, num_milestones = n,
                   milestones_released = 0, c_deadline = d, active = True, fully_funded = False \<rparr>),
             next_campaign_id := next_campaign_id s + 1,
             total_campaigns := total_campaigns s + 1,
             fund_trace := fund_trace s @ [Box_write (Put_campaign (next_campaign_id s)
                 \<lparr> c_creator = txn_sender ctx, goal = g, raised = 0, num_milestones = n,
                   milestones_released = 0, c_deadline = d, active = True, fully_funded = False \<rparr>)] \<rparr>"
  by (auto simp: create_campaign_def Let_def bind_Inr u64_add_Inr put_campaign_def)

lemma donate_Inr:
  "donate ctx cid payment s = Inr s' \<longleftrightarrow>
     (\<exists>c. campaigns s cid = Some c \<and> active c \<and>
        receiver payment = current_application_address ctx \<and> 0 < amount payment \<and>
        unat (get_donation cid (txn_sender ctx) s) + unat (amount payment) < 2 ^ 64 \<and>
        unat (raised c) + unat (amount payment) < 2 ^ 64 \<and>
        unat (total_raised s) + unat (amount payment) < 2 ^ 64 \<and>
        s' = s\<lparr> donations := (donations s)((cid, txn_sender ctx) \<mapsto>
                    get_donation cid (txn_sender ctx) s + amount payment),
                campaigns := (campaigns s)(cid \<mapsto>
                    c\<lparr> raised := raised c + amount payment,
                       fully_funded := (goal c \<le> raised c + amount payment \<or> fully_funded c) \<rparr>),
                total_raised := total_raised s + amount payment,
                fund_trace := fund_trace s @
                  [Box_write (Put_donation (cid, txn_sender ctx)
                     (get_donation cid (txn_sender ctx) s + amount payment)),
                   Box_write (Put_campaign cid
                     (c\<lparr> raised := raised c + amount payment,
                        fully_funded := (goal c \<le> raised c + amount payment \<or> fully_funded c) \<rparr>))] \<rparr>)"
  by (auto simp: donate_def Let_def bind_Inr u64_add_Inr put_campaign_def put_donation_def
        get_donation_def split: option.splits)

lemma release_milestone_Inr:
  "release_milestone ctx cid s = Inr s' \<longleftrightarrow>
     (\<exists>c. campaigns s cid = Some c \<and> txn_sender ctx = c_creator c \<and> fully_funded c \<and>
        milestones_released c < num_milestones c \<and> num_milestones c \<noteq> 0 \<and>
        unat (milestones_released c) + 1 < 2 ^ 64 \<and>
        s' = s\<lparr> campaigns := (campaigns s)(cid \<mapsto>
                    c\<lparr> milestones_released := milestones_released c + 1,
                       active := (milestones_released c + 1 \<noteq> num_milestones c \<and> active c) \<rparr>),
                fund_trace := fund_trace s @
                  [Inner_txn (Payment (c_creator c) (goal c div num_milestones c) 0),
                   Box_write (Put_campaign cid
                     (c\<lparr> milestones_released := milestones_released c + 1,
                        active := (milestones_released c + 1 \<noteq> num_milestones c \<and> active c) \<rparr>))] \<rparr>)"
  by (auto simp: release_milestone_def Let_def bind_Inr u64_add_Inr u64_floordiv_Inr
        put_campaign_def fund_submit_def split: option.splits)

lemma claim_refund_Inr:
  "claim_refund ctx cid s = Inr s' \<longleftrightarrow>
     (\<exists>c r. campaigns s cid = Some c \<and> c_deadline c < latest_timestamp ctx \<and> \<not> fully_funded c \<and>
        donations s (cid, txn_sender ctx) = Some r \<and> 0 < r \<and>
        s' = s\<lparr> donations := (donations s)((cid, txn_sender ctx) \<mapsto> 0),
                fund_trace := fund_trace s @
                  [Box_write (Put_donation (cid, txn_sender ctx) 0),
                   Inner_txn (Payment (txn_sender ctx) r 0)] \<rparr>)"
  by (auto simp: claim_refund_def Let_def put_donation_def fund_submit_def split: option.splits)


lemma fund_inv_init: "fund_inv fundraising_init"
  by (simp add: fund_inv_def fundraising_init_def)

lemma fund_inv_fresh: "fund_inv s \<Longrightarrow> campaigns s (next_campaign_id s) = None"
  by (cases "campaigns s (next_campaign_id s)") (auto simp: fund_inv_def)

lemma create_campaign_campaigns:
  assumes "create_campaign ctx g n d title descr s = Inr (cid, s')"
  shows "cid = next_campaign_id s" and "1 \<le> n" and "unat (next_campaign_id s) + 1 < 2 ^ 64"
    and "next_campaign_id s' = next_campaign_id s + 1"
    and "campaigns s' = (campaigns s)(next_campaign_id s \<mapsto>
                 \<lparr> c_creator = txn_sender ctx, goal = g, raised = 0, num_milestones = n,
                   milestones_released = 0, c_deadline = d, active = True, fully_funded = False \<rparr>)"
    and "fund_trace s' = fund_trace s @ [Box_write (Put_campaign (next_campaign_id s)
                 \<lparr> c_creator = txn_sender ctx, goal = g, raised = 0, num_milestones = n,
                   milestones_released = 0, c_deadline = d, active = True, fully_funded = False \<rparr>)]"
  using assms by (simp_all add: create_campaign_Inr)

lemma donate_campaigns:
  assumes "donate ctx cid payment s = Inr s'"
  obtains c where "campaigns s cid = Some c" and "active c"
    and "next_campaign_id s' = next_campaign_id s"
    and "campaigns s' = (campaigns s)(cid \<mapsto>
            c\<lparr> raised := raised c + amount payment,
               fully_funded := (goal c \<le> raised c + amount payment \<or> fully_funded c) \<rparr>)"
    and "payments (fund_trace s') = payments (fund_trace s)"
  using assms by (auto simp: donate_Inr payments_append)

lemma release_milestone_campaigns:
  assumes "release_milestone ctx cid s = Inr s'"
  obtains c where "campaigns s cid = Some c" and "txn_sender ctx = c_creator c" and "fully_funded c"
    and "milestones_released c < num_milestones c"
    and "next_campaign_id s' = next_campaign_id s"
    and "campaigns s' = (campaigns s)(cid \<mapsto>
            c\<lparr> milestones_released := milestones_released c + 1,
               active := (milestones_released c + 1 \<noteq> num_milestones c \<and> active c) \<rparr>)"
    and "fund_trace s' = fund_trace s @
            [Inner_txn (Payment (c_creator c) (goal c div num_milestones c) 0),
             Box_write (Put_campaign cid
               (c\<lparr> milestones_released := milestones_released c + 1,
                  active := (milestones_released c + 1 \<noteq> num_milestones c \<and> active c) \<rparr>))]"
  using assms by (auto simp: release_milestone_Inr)

lemma claim_refund_campaigns:
  assumes "claim_refund ctx cid s = Inr s'"
  shows "campaigns s' = campaigns s" and "next_campaign_id s' = next_campaign_id s"
    and "\<exists>c. campaigns s cid = Some c \<and> \<not> fully_funded c"
  using assms by (auto simp: claim_refund_Inr)

lemma create_campaign_inv:
  assumes "fund_inv s" and "create_campaign ctx g n d title descr s = Inr (cid, s')"
  shows "fund_inv s'"
proof -
  note c = create_campaign_campaigns [OF assms(2)]
  have "0 < n" using c(2) by (simp add: word_less_nat_alt word_le_nat_alt)
  then show ?thesis
    unfolding fund_inv_def c(4) c(5)
    using assms(1) c(2) word_less_succ [OF c(3)]
    by (auto simp: fund_inv_def)
qed

lemma donate_inv:
  assumes "fund_inv s" and "donate ctx cid payment s = Inr s'"
  shows "fund_inv s'"
proof -
  from assms(2) obtain c where g: "campaigns s cid = Some c"
    and nx: "next_campaign_id s' = next_campaign_id s"
    and cs: "campaigns s' = (campaigns s)(cid \<mapsto>
            c\<lparr> raised := raised c + amount payment,
               fully_funded := (goal c \<le> raised c + amount payment \<or> fully_funded c) \<rparr>)"
    by (rule donate_campaigns)
  show ?thesis
    unfolding fund_inv_def nx cs using assms(1) g
    by (auto simp: fund_inv_def)
qed

lemma release_milestone_inv:
  assumes "fund_inv s" and "release_milestone ctx cid s = Inr s'"
  shows "fund_inv s'"
proof -
  from assms(2) obtain c where g: "campaigns s cid = Some c" and ff: "fully_funded c"
    and lt: "milestones_released c < num_milestones c"
    and nx: "next_campaign_id s' = next_campaign_id s"
    and cs: "campaigns s' = (campaigns s)(cid \<mapsto>
            c\<lparr> milestones_released := milestones_released c + 1,
               active := (milestones_released c + 1 \<noteq> num_milestones c \<and> active c) \<rparr>)"
    by (rule release_milestone_campaigns)
  note u = unat_succ_below [OF lt]
  from assms(1) g lt have act: "active c" by (auto simp: fund_inv_def)
  have "milestones_released c + 1 < num_milestones c \<longleftrightarrow> milestones_released c + 1 \<noteq> num_milestones c"
    using u(2) by auto
  then show ?thesis
    unfolding fund_inv_def nx cs using assms(1) g ff act u(2)
    by (auto simp: fund_inv_def)
qed

lemma claim_refund_inv:
  assumes "fund_inv s" and "claim_refund ctx cid s = Inr s'"
  shows "fund_inv s'"
  using assms(1) claim_refund_campaigns(1,2) [OF assms(2)] by (simp add: fund_inv_def)

lemma fund_step_inv: "fund_inv s \<Longrightarrow> fund_inv (fund_step c s)"
proof (cases c)
  case (Create_campaign ctx g n d t descr)
  assume "fund_inv s"
  with Create_campaign show ?thesis
    by (auto split: sum.splits dest: create_campaign_inv)
next
  case (Donate ctx cid p)
  assume "fund_inv s"
  with Donate show ?thesis
    by (auto split: sum.splits dest: donate_inv)
next
  case (Release_milestone ctx cid)
  assume "fund_inv s"
  with Release_milestone show ?thesis
    by (auto split: sum.splits dest: release_milestone_inv)
next
  case (Claim_refund ctx cid)
  assume "fund_inv s"
  with Claim_refund show ?thesis
    by (auto split: sum.splits dest: claim_refund_inv)
qed

lemma run_fund_inv: "fund_inv s \<Longrightarrow> fund_inv (run_fund cs s)"
  by (induction cs arbitrary: s) (simp_all add: fund_step_inv)

lemma run_fund_reachable_inv: "fund_inv (run_fund history fundraising_init)"
  using fund_inv_init by (rule run_fund_inv)

lemma paid_out_release:
  "paid_out (tr @ [Inner_txn (Payment r a f), Box_write w]) - paid_out tr = unat a"
  by (simp add: paid_out_def)

lemma fund_step_bookkeeping:
  assumes "fund_inv s"
  shows "stored_releases (fund_step call s) cid = stored_releases s cid + release_succeeded cid call s \<and>
         stored_payout (fund_step call s) cid = stored_payout s cid + released_by cid call s"
proof (cases call)
  case (Create_campaign ctx g n d t descr)
  show ?thesis
  proof (cases "create_campaign ctx g n d t descr s")
    case (Inl e)
    with Create_campaign show ?thesis by simp
  next
    case (Inr r)
    obtain k s' where r: "r = (k, s')" by (cases r)
    with Inr Create_campaign have step: "fund_step call s = s'" by simp
    note c = create_campaign_campaigns [OF Inr [unfolded r]]
    from fund_inv_fresh [OF assms] c(5) show ?thesis
      unfolding step
      by (simp add: Create_campaign stored_releases_def stored_payout_def)
  qed
next
  case (Donate ctx k p)
  show ?thesis
  proof (cases "donate ctx k p s")
    case (Inl e)
    with Donate show ?thesis by simp
  next
    case (Inr s')
    with Donate have step: "fund_step call s = s'" by simp
    from Inr obtain c where "campaigns s k = Some c"
      and "campaigns s' = (campaigns s)(k \<mapsto>
            c\<lparr> raised := raised c + amount p,
               fully_funded := (goal c \<le> raised c + amount p \<or> fully_funded c) \<rparr>)"
      by (rule donate_campaigns)
    then show ?thesis
      unfolding step
      by (simp add: Donate stored_releases_def stored_payout_def)
  qed
next
  case (Release_milestone ctx k)
  show ?thesis
  proof (cases "release_milestone ctx k s")
    case (Inl e)
    with Release_milestone show ?thesis by auto
  next
    case (Inr s')
    with Release_milestone have step: "fund_step call s = s'" by simp
    from Inr obtain c where g: "campaigns s k = Some c"
      and lt: "milestones_released c < num_milestones c"
      and cs: "campaigns s' = (campaigns s)(k \<mapsto>
            c\<lparr> milestones_released := milestones_released c + 1,
               active := (milestones_released c + 1 \<noteq> num_milestones c \<and> active c) \<rparr>)"
      and tr: "fund_trace s' = fund_trace s @
            [Inner_txn (Payment (c_creator c) (goal c div num_milestones c) 0),
             Box_write (Put_campaign k
               (c\<lparr> milestones_released := milestones_released c + 1,
                  active := (milestones_released c + 1 \<noteq> num_milestones c \<and> active c) \<rparr>))]"
      by (rule release_milestone_campaigns)
    have u: "unat (milestones_released c + 1) = unat (milestones_released c) + 1"
      using lt by (rule unat_succ_below)
    have paid: "paid_out (fund_trace s') - paid_out (fund_trace s) = unat (goal c) div unat (num_milestones c)"
      unfolding tr paid_out_release by (simp add: unat_div)
    show ?thesis
    proof (cases "k = cid")
      case True
      with g cs u paid Inr show ?thesis
        unfolding step
        by (simp add: Release_milestone stored_releases_def stored_payout_def)
    next
      case False
      with cs show ?thesis
        unfolding step
        by (simp add: Release_milestone stored_releases_def stored_payout_def)
    qed
  qed
next
  case (Claim_refund ctx k)
  show ?thesis
  proof (cases "claim_refund ctx k s")
    case (Inl e)
    with Claim_refund show ?thesis by simp
  next
    case (Inr s')
    with Claim_refund have step: "fund_step call s = s'" by simp
    from claim_refund_campaigns(1) [OF Inr] show ?thesis
      unfolding step
      by (simp add: Claim_refund stored_releases_def stored_payout_def)
  qed
qed

lemma run_fund_bookkeeping:
  "fund_inv s \<Longrightarrow>
     stored_releases (run_fund cs s) cid = stored_releases s cid + releases cid cs s \<and>
     stored_payout (run_fund cs s) cid = stored_payout s cid + total_released cid cs s"
proof (induction cs arbitrary: s)
  case Nil
  then show ?case by simp
next
  case (Cons call cs)
  from Cons.prems have "fund_inv (fund_step call s)" by (rule fund_step_inv)
  from Cons.IH [OF this] fund_step_bookkeeping [OF Cons.prems, of call cid]
  show ?case by simp
qed

lemma history_bookkeeping:
  assumes "campaigns (run_fund history fundraising_init) cid = Some c"
  shows "releases cid history fundraising_init = unat (milestones_released c)"
    and "total_released cid history fundraising_init =
           unat (milestones_released c) * (unat (goal c) div unat (num_milestones c))"
proof -
  have z: "stored_releases fundraising_init cid = 0" "stored_payout fundraising_init cid = 0"
    by (simp_all add: stored_releases_def stored_payout_def fundraising_init_def)
  from run_fund_bookkeeping [OF fund_inv_init, of history cid]
  have a: "stored_releases (run_fund history fundraising_init) cid = releases cid history fundraising_init"
    and b: "stored_payout (run_fund history fundraising_init) cid = total_released cid history fundraising_init"
    unfolding z by simp_all
  from a assms show "releases cid history fundraising_init = unat (milestones_released c)"
    by (simp add: stored_releases_def)
  from b assms show "total_released cid history fundraising_init =
           unat (milestones_released c) * (unat (goal c) div unat (num_milestones c))"
    by (simp add: stored_payout_def)
qed

lemmas fund_eval = create_campaign_def donate_def release_milestone_def claim_refund_def
  put_campaign_def put_donation_def fund_submit_def fundraising_init_def bind_def u64_add_def
  u64_floordiv_def Let_def

lemma release_milestone_all_released:
  assumes "campaigns s cid = Some c" and "fully_funded c"
    and "\<not> milestones_released c < num_milestones c"
  shows "release_milestone ctx cid s =
     Inl (if txn_sender ctx \<noteq> c_creator c then Only_creator else All_milestones_released)"
  using assms by (simp add: release_milestone_def)

text \<open>
  Claim C3, as amended.  Take a campaign \<open>c\<close> with goal \<open>g\<close> and \<open>n\<close> milestones in a
  reachable state.  Each successful \<^verbatim>\<open>release_milestone\<close> call pays exactly \<open>g div n\<close>
  (floor division) to the creator and increments \<open>milestones_released\<close> by one.  The
  number of successful releases in the history is the stored counter, and the amount
  they paid in total is that number times \<open>g div n\<close>.  After \<open>n\<close> successful releases the
  campaign is inactive, the total paid is \<open>n * (g div n) \<le> g\<close>, and every further call
  fails: with ``All milestones released'' when the creator calls, and with ``Only
  creator'' (checked first) when anyone else does.
\<close>

theorem release_milestone_spec:
  assumes "s = run_fund history fundraising_init" and "campaigns s cid = Some c"
  shows "(\<forall>ctx s'. release_milestone ctx cid s = Inr s' \<longrightarrow>
            payments (fund_trace s') =
              payments (fund_trace s) @ [(c_creator c, goal c div num_milestones c)] \<and>
            unat (goal c div num_milestones c) = unat (goal c) div unat (num_milestones c) \<and>
            (\<exists>c'. campaigns s' cid = Some c' \<and>
               unat (milestones_released c') = unat (milestones_released c) + 1 \<and>
               c_creator c' = c_creator c \<and> goal c' = goal c \<and>
               num_milestones c' = num_milestones c)) \<and>
         releases cid history fundraising_init = unat (milestones_released c) \<and>
         total_released cid history fundraising_init =
           releases cid history fundraising_init * (unat (goal c) div unat (num_milestones c)) \<and>
         (releases cid history fundraising_init = unat (num_milestones c) \<longrightarrow>
            \<not> active c \<and>
            (\<forall>ctx. release_milestone ctx cid s =
               Inl (if txn_sender ctx \<noteq> c_creator c then Only_creator else All_milestones_released)) \<and>
            total_released cid history fundraising_init =
              unat (num_milestones c) * (unat (goal c) div unat (num_milestones c)) \<and>
            total_released cid history fundraising_init \<le> unat (goal c))"
proof -
  have inv: "fund_inv s" unfolding assms(1) by (rule run_fund_reachable_inv)
  note book = history_bookkeeping [OF assms(2) [unfolded assms(1)]]
  have step: "payments (fund_trace s') =
              payments (fund_trace s) @ [(c_creator c, goal c div num_milestones c)] \<and>
            unat (goal c div num_milestones c) = unat (goal c) div unat (num_milestones c) \<and>
            (\<exists>c'. campaigns s' cid = Some c' \<and>
               unat (milestones_released c') = unat (milestones_released c) + 1 \<and>
               c_creator c' = c_creator c \<and> goal c' = goal c \<and>
               num_milestones c' = num_milestones c)"
    if run: "release_milestone ctx cid s = Inr s'" for ctx s'
  proof -
    from run obtain c0 where g: "campaigns s cid = Some c0"
      and lt: "milestones_released c0 < num_milestones c0"
      and cs: "campaigns s' = (campaigns s)(cid \<mapsto>
            c0\<lparr> milestones_released := milestones_released c0 + 1,
               active := (milestones_released c0 + 1 \<noteq> num_milestones c0 \<and> active c0) \<rparr>)"
      and tr: "fund_trace s' = fund_trace s @
            [Inner_txn (Payment (c_creator c0) (goal c0 div num_milestones c0) 0),
             Box_write (Put_campaign cid
               (c0\<lparr> milestones_released := milestones_released c0 + 1,
                  active := (milestones_released c0 + 1 \<noteq> num_milestones c0 \<and> active c0) \<rparr>))]"
      by (rule release_milestone_campaigns)
    from g assms(2) have c0: "c0 = c" by simp
    have "unat (milestones_released c + 1) = unat (milestones_released c) + 1"
      using lt unfolding c0 by (rule unat_succ_below)
    then show ?thesis
      unfolding tr cs c0 by (simp add: payments_append unat_div)
  qed
  have full: "\<not> active c \<and>
      (\<forall>ctx. release_milestone ctx cid s =
         Inl (if txn_sender ctx \<noteq> c_creator c then Only_creator else All_milestones_released)) \<and>
      total_released cid history fundraising_init =
        unat (num_milestones c) * (unat (goal c) div unat (num_milestones c)) \<and>
      total_released cid history fundraising_init \<le> unat (goal c)"
    if n: "releases cid history fundraising_init = unat (num_milestones c)"
  proof -
    from n book(1) have "unat (milestones_released c) = unat (num_milestones c)" by simp
    then have eq: "milestones_released c = num_milestones c" by (rule word_unat_eq_iff [THEN iffD2])
    from inv assms(2) have one: "1 \<le> num_milestones c"
      and act: "active c \<longleftrightarrow> milestones_released c < num_milestones c"
      and ff: "milestones_released c \<noteq> 0 \<longrightarrow> fully_funded c"
      by (auto simp: fund_inv_def)
    from one have "num_milestones c \<noteq> 0" by auto
    with ff eq have funded: "fully_funded c" by simp
    have nl: "\<not> milestones_released c < num_milestones c" using eq by simp
    have "unat (num_milestones c) * (unat (goal c) div unat (num_milestones c)) \<le> unat (goal c)"
      by simp
    with book(2) eq act nl release_milestone_all_released [OF assms(2) funded nl]
    show ?thesis by simp
  qed
  from step book full show ?thesis by (simp add: assms(1))
qed


theorem release_milestone_spec_witness:
  "release_milestone \<lparr> txn_sender = 1, current_application_address = 9, creator_address = 0, latest_timestamp = 5 \<rparr> 0 (run_fund
     [Create_campaign \<lparr> txn_sender = 1, current_application_address = 9, creator_address = 0, latest_timestamp = 0 \<rparr> 100 3 10 ''fest'' ''stage'',
        Donate \<lparr> txn_sender = 2, current_application_address = 9, creator_address = 0, latest_timestamp = 1 \<rparr> 0 \<lparr> receiver = 9, amount = 100 \<rparr>,
        Release_milestone \<lparr> txn_sender = 1, current_application_address = 9, creator_address = 0, latest_timestamp = 2 \<rparr> 0,
        Release_milestone \<lparr> txn_sender = 1, current_application_address = 9, creator_address = 0, latest_timestamp = 3 \<rparr> 0,
        Release_milestone \<lparr> txn_sender = 1, current_application_address = 9, creator_address = 0, latest_timestamp = 4 \<rparr> 0] fundraising_init) = Inl All_milestones_released
   \<and> total_released 0
     [Create_campaign \<lparr> txn_sender = 1, current_application_address = 9, creator_address = 0, latest_timestamp = 0 \<rparr> 100 3 10 ''fest'' ''stage'',
        Donate \<lparr> txn_sender = 2, current_application_address = 9, creator_address = 0, latest_timestamp = 1 \<rparr> 0 \<lparr> receiver = 9, amount = 100 \<rparr>,
        Release_milestone \<lparr> txn_sender = 1, current_application_address = 9, creator_address = 0, latest_timestamp = 2 \<rparr> 0,
        Release_milestone \<lparr> txn_sender = 1, current_application_address = 9, creator_address = 0, latest_timestamp = 3 \<rparr> 0,
        Release_milestone \<lparr> txn_sender = 1, current_application_address = 9, creator_address = 0, latest_timestamp = 4 \<rparr> 0] fundraising_init = 99"
proof -
  let ?h = "[Create_campaign \<lparr> txn_sender = 1, current_application_address = 9, creator_address = 0, latest_timestamp = 0 \<rparr> 100 3 10 ''fest'' ''stage'',
        Donate \<lparr> txn_sender = 2, current_application_address = 9, creator_address = 0, latest_timestamp = 1 \<rparr> 0 \<lparr> receiver = 9, amount = 100 \<rparr>,
        Release_milestone \<lparr> txn_sender = 1, current_application_address = 9, creator_address = 0, latest_timestamp = 2 \<rparr> 0,
        Release_milestone \<lparr> txn_sender = 1, current_application_address = 9, creator_address = 0, latest_timestamp = 3 \<rparr> 0,
        Release_milestone \<lparr> txn_sender = 1, current_application_address = 9, creator_address = 0, latest_timestamp = 4 \<rparr> 0]"
  have g: "campaigns (run_fund ?h fundraising_init) 0 =
      Some \<lparr> c_creator = 1, goal = 100, raised = 100, num_milestones = 3, milestones_released = 3,
             c_deadline = 10, active = False, fully_funded = True \<rparr>"
    by (simp add: fund_eval)
  from release_milestone_spec [OF refl g] show ?thesis
    by simp
qed

text \<open>
  The claim as stated fails for a caller who is not the creator: after three successful
  releases of a three-milestone campaign, account 2's call is rejected by the
  authorization check, which runs before the check of the counter.
\<close>

theorem release_milestone_counterexample:
  "releases 0
     [Create_campaign \<lparr> txn_sender = 1, current_application_address = 9, creator_address = 0, latest_timestamp = 0 \<rparr> 100 3 10 ''fest'' ''stage'',
        Donate \<lparr> txn_sender = 2, current_application_address = 9, creator_address = 0, latest_timestamp = 1 \<rparr> 0 \<lparr> receiver = 9, amount = 100 \<rparr>,
        Release_milestone \<lparr> txn_sender = 1, current_application_address = 9, creator_address = 0, latest_timestamp = 2 \<rparr> 0,
        Release_milestone \<lparr> txn_sender = 1, current_application_address = 9, creator_address = 0, latest_timestamp = 3 \<rparr> 0,
        Release_milestone \<lparr> txn_sender = 1, current_application_address = 9, creator_address = 0, latest_timestamp = 4 \<rparr> 0] fundraising_init = 3
   \<and> release_milestone \<lparr> txn_sender = 2, current_application_address = 9, creator_address = 0, latest_timestamp = 5 \<rparr> 0 (run_fund
     [Create_campaign \<lparr> txn_sender = 1, current_application_address = 9, creator_address = 0, latest_timestamp = 0 \<rparr> 100 3 10 ''fest'' ''stage'',
        Donate \<lparr> txn_sender = 2, current_application_address = 9, creator_address = 0, latest_timestamp = 1 \<rparr> 0 \<lparr> receiver = 9, amount = 100 \<rparr>,
        Release_milestone \<lparr> txn_sender = 1, current_application_address = 9, creator_address = 0, latest_timestamp = 2 \<rparr> 0,
        Release_milestone \<lparr> txn_sender = 1, current_application_address = 9, creator_address = 0, latest_timestamp = 3 \<rparr> 0,
        Release_milestone \<lparr> txn_sender = 1, current_application_address = 9, creator_address = 0, latest_timestamp = 4 \<rparr> 0] fundraising_init) = Inl Only_creator"
  by (simp add: fund_eval)

lemma fund_step_fully_funded:
  assumes "fund_inv s" and "campaigns s cid = Some c" and "fully_funded c"
  shows "\<exists>c'. campaigns (fund_step call s) cid = Some c' \<and> fully_funded c'"
proof (cases call)
  case (Create_campaign ctx g n d t descr)
  show ?thesis
  proof (cases "create_campaign ctx g n d t descr s")
    case (Inl e)
    with Create_campaign assms(2,3) show ?thesis by simp
  next
    case (Inr r)
    obtain k s' where r: "r = (k, s')" by (cases r)
    with Inr Create_campaign have step: "fund_step call s = s'" by simp
    from fund_inv_fresh [OF assms(1)] assms(2) have "cid \<noteq> next_campaign_id s" by auto
    with create_campaign_campaigns(5) [OF Inr [unfolded r]] assms(2,3) show ?thesis
      unfolding step by simp
  qed
next
  case (Donate ctx k p)
  show ?thesis
  proof (cases "donate ctx k p s")
    case (Inl e)
    with Donate assms(2,3) show ?thesis by simp
  next
    case (Inr s')
    with Donate have step: "fund_step call s = s'" by simp
    from Inr obtain c0 where "campaigns s k = Some c0"
      and "campaigns s' = (campaigns s)(k \<mapsto>
            c0\<lparr> raised := raised c0 + amount p,
               fully_funded := (goal c0 \<le> raised c0 + amount p \<or> fully_funded c0) \<rparr>)"
      by (rule donate_campaigns)
    with assms(2,3) show ?thesis unfolding step by auto
  qed
next
  case (Release_milestone ctx k)
  show ?thesis
  proof (cases "release_milestone ctx k s")
    case (Inl e)
    with Release_milestone assms(2,3) show ?thesis by simp
  next
    case (Inr s')
    with Release_milestone have step: "fund_step call s = s'" by simp
    from Inr obtain c0 where "campaigns s k = Some c0"
      and "campaigns s' = (campaigns s)(k \<mapsto>
            c0\<lparr> milestones_released := milestones_released c0 + 1,
               active := (milestones_released c0 + 1 \<noteq> num_milestones c0 \<and> active c0) \<rparr>)"
      by (rule release_milestone_campaigns)
    with assms(2,3) show ?thesis unfolding step by auto
  qed
next
  case (Claim_refund ctx k)
  show ?thesis
  proof (cases "claim_refund ctx k s")
    case (Inl e)
    with Claim_refund assms(2,3) show ?thesis by simp
  next
    case (Inr s')
    with Claim_refund have step: "fund_step call s = s'" by simp
    from claim_refund_campaigns(1) [OF Inr] assms(2,3) show ?thesis
      unfolding step by simp
  qed
qed

lemma run_fund_fully_funded:
  "fund_inv s \<Longrightarrow> campaigns s cid = Some c \<Longrightarrow> fully_funded c \<Longrightarrow>
     \<exists>c'. campaigns (run_fund cs s) cid = Some c' \<and> fully_funded c'"
proof (induction cs arbitrary: s c)
  case Nil
  then show ?case by simp
next
  case (Cons call cs)
  from fund_step_fully_funded [OF Cons.prems, of call]
  obtain c1 where c1: "campaigns (fund_step call s) cid = Some c1" "fully_funded c1" by blast
  from Cons.prems(1) have "fund_inv (fund_step call s)" by (rule fund_step_inv)
  from Cons.IH [OF this c1] show ?case by simp
qed

text \<open>
  Claim C7.  Once a campaign of a reachable state has \<open>fully_funded = True\<close>, it still
  has after any further calls (\<^verbatim>\<open>create_campaign\<close>, \<^verbatim>\<open>donate\<close>, \<^verbatim>\<open>release_milestone\<close>,
  \<^verbatim>\<open>claim_refund\<close>, succeeding or failing, in any order).
\<close>

theorem fully_funded_monotone:
  assumes "s = run_fund history fundraising_init"
    and "campaigns s cid = Some c" and "fully_funded c"
  shows "\<exists>c'. campaigns (run_fund later s) cid = Some c' \<and> fully_funded c'"
proof -
  have "fund_inv s" unfolding assms(1) by (rule run_fund_reachable_inv)
  then show ?thesis using assms(2,3) by (rule run_fund_fully_funded)
qed

theorem fully_funded_monotone_witness:
  "\<exists>c'. campaigns (run_fund
      [Release_milestone \<lparr> txn_sender = 1, current_application_address = 9, creator_address = 0, latest_timestamp = 2 \<rparr> 0,
       Donate \<lparr> txn_sender = 2, current_application_address = 9, creator_address = 0, latest_timestamp = 3 \<rparr> 0 \<lparr> receiver = 9, amount = 50 \<rparr>,
       Claim_refund \<lparr> txn_sender = 2, current_application_address = 9, creator_address = 0, latest_timestamp = 20 \<rparr> 0]
      (run_fund
     [Create_campaign \<lparr> txn_sender = 1, current_application_address = 9, creator_address = 0, latest_timestamp = 0 \<rparr> 100 3 10 ''fest'' ''stage'',
        Donate \<lparr> txn_sender = 2, current_application_address = 9, creator_address = 0, latest_timestamp = 1 \<rparr> 0 \<lparr> receiver = 9, amount = 100 \<rparr>] fundraising_init)) 0 = Some c' \<and> fully_funded c'"
proof -
  have g: "campaigns (run_fund [Create_campaign \<lparr> txn_sender = 1, current_application_address = 9, creator_address = 0, latest_timestamp = 0 \<rparr> 100 3 10 ''fest'' ''stage'',
        Donate \<lparr> txn_sender = 2, current_application_address = 9, creator_address = 0, latest_timestamp = 1 \<rparr> 0 \<lparr> receiver = 9, amount = 100 \<rparr>] fundraising_init) 0 =
      Some \<lparr> c_creator = 1, goal = 100, raised = 100, num_milestones = 3, milestones_released = 0,
             c_deadline = 10, active = True, fully_funded = True \<rparr>"
    by (simp add: fund_eval)
  show ?thesis
    by (rule fully_funded_monotone [OF refl g]) simp
qed

lemma claim_refund_funded_fails:
  assumes "campaigns s cid = Some c" and "fully_funded c"
  shows "claim_refund ctx cid s =
     Inl (if \<not> c_deadline c < latest_timestamp ctx then Deadline_not_passed
          else Campaign_was_funded_no_refund)"
  using assms by (simp add: claim_refund_def)

text \<open>
  Claim C10, as amended.  \<^verbatim>\<open>donate\<close> never reads the clock: on an active campaign of a
  reachable state, a positive donation paid to the program succeeds whatever the current
  time is (so also past the deadline with \<open>raised < goal\<close>), provided the donor's record,
  \<open>raised\<close> and \<open>total_raised\<close> stay within 64 bits.  If it brings \<open>raised\<close> to the goal,
  the campaign becomes fully funded, and from then on every \<^verbatim>\<open>claim_refund\<close> call on the
  campaign fails, whoever calls and whenever.
\<close>

theorem donate_ignores_deadline:
  assumes "s = run_fund history fundraising_init"
    and "campaigns s cid = Some c" and "active c"
    and "0 < amount payment" and "receiver payment = current_application_address ctx"
    and "unat (get_donation cid (txn_sender ctx) s) + unat (amount payment) < 2 ^ 64"
    and "unat (raised c) + unat (amount payment) < 2 ^ 64"
    and "unat (total_raised s) + unat (amount payment) < 2 ^ 64"
  shows "\<exists>s' c'. donate ctx cid payment s = Inr s' \<and>
           (\<forall>now. donate (ctx\<lparr> latest_timestamp := now \<rparr>) cid payment s = Inr s') \<and>
           campaigns s' cid = Some c' \<and>
           unat (raised c') = unat (raised c) + unat (amount payment) \<and>
           (goal c \<le> raised c' \<longrightarrow>
              fully_funded c' \<and>
              (\<forall>later ctx'. \<exists>e. claim_refund ctx' cid (run_fund later s') = Inl e))"
proof -
  let ?c' = "c\<lparr> raised := raised c + amount payment,
                 fully_funded := (goal c \<le> raised c + amount payment \<or> fully_funded c) \<rparr>"
  define s' where "s' = s\<lparr> donations := (donations s)((cid, txn_sender ctx) \<mapsto>
                    get_donation cid (txn_sender ctx) s + amount payment),
                campaigns := (campaigns s)(cid \<mapsto> ?c'),
                total_raised := total_raised s + amount payment,
                fund_trace := fund_trace s @
                  [Box_write (Put_donation (cid, txn_sender ctx)
                     (get_donation cid (txn_sender ctx) s + amount payment)),
                   Box_write (Put_campaign cid ?c')] \<rparr>"
  have run: "donate (ctx\<lparr> latest_timestamp := now \<rparr>) cid payment s = Inr s'" for now
    unfolding donate_Inr s'_def using assms(2-8) by simp
  from run [of "latest_timestamp ctx"] have run0: "donate ctx cid payment s = Inr s'" by simp
  have g': "campaigns s' cid = Some ?c'" by (simp add: s'_def)
  have raised': "unat (raised ?c') = unat (raised c) + unat (amount payment)"
    using assms(7) by (simp add: unat_u64_add)
  have closed: "fully_funded ?c' \<and>
      (\<forall>later ctx'. \<exists>e. claim_refund ctx' cid (run_fund later s') = Inl e)"
    if reached: "goal c \<le> raised ?c'"
  proof -
    from reached have ff: "fully_funded ?c'" by simp
    have "fund_inv s" unfolding assms(1) by (rule run_fund_reachable_inv)
    then have inv': "fund_inv s'" using run0 by (rule donate_inv)
    have "\<exists>e. claim_refund ctx' cid (run_fund later s') = Inl e" for later ctx'
    proof -
      from run_fund_fully_funded [OF inv' g' ff, of later]
      obtain c2 where "campaigns (run_fund later s') cid = Some c2" "fully_funded c2" by blast
      then show ?thesis by (simp add: claim_refund_funded_fails)
    qed
    with ff show ?thesis by blast
  qed
  from run0 run g' raised' closed show ?thesis by blast
qed

theorem donate_ignores_deadline_witness:
  "\<exists>s' c'. donate \<lparr> txn_sender = 3, current_application_address = 9, creator_address = 0, latest_timestamp = 20 \<rparr> 0 \<lparr> receiver = 9, amount = 60 \<rparr>
        (run_fund [Create_campaign \<lparr> txn_sender = 1, current_application_address = 9, creator_address = 0, latest_timestamp = 0 \<rparr> 100 2 10 ''fest'' ''stage'',
        Donate \<lparr> txn_sender = 2, current_application_address = 9, creator_address = 0, latest_timestamp = 1 \<rparr> 0 \<lparr> receiver = 9, amount = 40 \<rparr>] fundraising_init) = Inr s'
     \<and> campaigns s' 0 = Some c' \<and> fully_funded c'
     \<and> claim_refund \<lparr> txn_sender = 2, current_application_address = 9, creator_address = 0, latest_timestamp = 21 \<rparr> 0 s' = Inl Campaign_was_funded_no_refund"
proof -
  let ?s = "run_fund [Create_campaign \<lparr> txn_sender = 1, current_application_address = 9, creator_address = 0, latest_timestamp = 0 \<rparr> 100 2 10 ''fest'' ''stage'',
        Donate \<lparr> txn_sender = 2, current_application_address = 9, creator_address = 0, latest_timestamp = 1 \<rparr> 0 \<lparr> receiver = 9, amount = 40 \<rparr>] fundraising_init"
  have g: "campaigns ?s 0 =
      Some \<lparr> c_creator = 1, goal = 100, raised = 40, num_milestones = 2, milestones_released = 0,
             c_deadline = 10, active = True, fully_funded = False \<rparr>"
    and d: "get_donation 0 3 ?s = 0" and t: "total_raised ?s = 40"
    by (simp_all add: fund_eval get_donation_def)
  from donate_ignores_deadline [OF refl g, of "\<lparr> receiver = 9, amount = 60 \<rparr>" "\<lparr> txn_sender = 3, current_application_address = 9, creator_address = 0, latest_timestamp = 20 \<rparr>"] d t
  obtain s' c' where run: "donate \<lparr> txn_sender = 3, current_application_address = 9, creator_address = 0, latest_timestamp = 20 \<rparr> 0 \<lparr> receiver = 9, amount = 60 \<rparr> ?s = Inr s'"
    and c': "campaigns s' 0 = Some c'" and r: "unat (raised c') = 100"
    and cl: "goal \<lparr> c_creator = 1, goal = 100, raised = 40, num_milestones = 2, milestones_released = 0,
             c_deadline = 10, active = True, fully_funded = False \<rparr> \<le> raised c' \<longrightarrow> fully_funded c' \<and>
              (\<forall>later ctx'. \<exists>e. claim_refund ctx' 0 (run_fund later s') = Inl e)"
    by auto
  from r have "raised c' = 100" by (simp add: word_unat_eq_iff)
  with cl have ff: "fully_funded c'" by simp
  have dl: "c_deadline c' = 10"
    using run c' g unfolding donate_Inr by auto
  from c' ff dl have "claim_refund \<lparr> txn_sender = 2, current_application_address = 9, creator_address = 0, latest_timestamp = 21 \<rparr> 0 s' = Inl Campaign_was_funded_no_refund"
    by (simp add: claim_refund_funded_fails)
  with run c' ff show ?thesis by blast
qed

text \<open>
  The claim as stated fails at the top of the 64-bit range: the campaign is active, the
  deadline 10 has passed, \<open>raised < goal\<close>, and a donation of 5 paid to the program fails
  on the addition to \<open>raised\<close>.
\<close>

theorem donate_counterexample:
  "campaigns (run_fund [Create_campaign \<lparr> txn_sender = 1, current_application_address = 9, creator_address = 0, latest_timestamp = 0 \<rparr> 18446744073709551615 1 10 ''fest'' ''stage'',
        Donate \<lparr> txn_sender = 2, current_application_address = 9, creator_address = 0, latest_timestamp = 1 \<rparr> 0 \<lparr> receiver = 9, amount = 18446744073709551614 \<rparr>] fundraising_init) 0 =
      Some \<lparr> c_creator = 1, goal = 18446744073709551615, raised = 18446744073709551614,
             num_milestones = 1, milestones_released = 0,
             c_deadline = 10, active = True, fully_funded = False \<rparr>
   \<and> donate \<lparr> txn_sender = 3, current_application_address = 9, creator_address = 0, latest_timestamp = 20 \<rparr> 0 \<lparr> receiver = 9, amount = 5 \<rparr>
        (run_fund [Create_campaign \<lparr> txn_sender = 1, current_application_address = 9, creator_address = 0, latest_timestamp = 0 \<rparr> 18446744073709551615 1 10 ''fest'' ''stage'',
        Donate \<lparr> txn_sender = 2, current_application_address = 9, creator_address = 0, latest_timestamp = 1 \<rparr> 0 \<lparr> receiver = 9, amount = 18446744073709551614 \<rparr>] fundraising_init) = Inl Arith_overflow"
  by (simp add: fund_eval)

text \<open>
  \<^verbatim>\<open>claim_refund\<close> writes the zeroed donation first and submits the payment second;
  \<^verbatim>\<open>release_milestone\<close> submits the payment first and writes the campaign second.
\<close>

lemma claim_refund_writes_then_pays:
  assumes "claim_refund ctx cid s = Inr s'" and "donations s (cid, txn_sender ctx) = Some r"
  shows "fund_trace s' = fund_trace s @
     [Box_write (Put_donation (cid, txn_sender ctx) 0),
      Inner_txn (Payment (txn_sender ctx) r 0)]"
  using assms by (auto simp: claim_refund_Inr)

lemma release_milestone_pays_then_writes:
  assumes "release_milestone ctx cid s = Inr s'" and "campaigns s cid = Some c"
  shows "\<exists>c'. campaigns s' cid = Some c' \<and>
     milestones_released c' = milestones_released c + 1 \<and>
     fund_trace s' = fund_trace s @
       [Inner_txn (Payment (c_creator c) (goal c div num_milestones c) 0),
        Box_write (Put_campaign cid c')]"
  using assms by (auto simp: release_milestone_Inr)

text \<open>
  Claim C1 does not hold of \<^verbatim>\<open>release_milestone\<close>.  The effects of a call are recorded in
  program order.  \<^verbatim>\<open>withdraw\<close>, \<^verbatim>\<open>settle_group\<close> and \<^verbatim>\<open>claim_refund\<close> write their record
  first and submit the payment second (\<open>withdraw_writes_then_pays\<close>,
  \<open>settle_group_writes_then_pays\<close>, \<open>claim_refund_writes_then_pays\<close>);
  \<^verbatim>\<open>release_milestone\<close> submits the payment first and writes the campaign record, with
  the incremented counter, only afterwards (\<open>release_milestone_pays_then_writes\<close>).
  Here on a funded campaign with goal 100 and three milestones: the payment of 33
  precedes the write.
\<close>

theorem release_milestone_pays_before_marking:
  "release_milestone \<lparr> txn_sender = 1, current_application_address = 9, creator_address = 0, latest_timestamp = 2 \<rparr> 0 (run_fund [Create_campaign \<lparr> txn_sender = 1, current_application_address = 9, creator_address = 0, latest_timestamp = 0 \<rparr> 100 3 10 ''fest'' ''stage'',
        Donate \<lparr> txn_sender = 2, current_application_address = 9, creator_address = 0, latest_timestamp = 1 \<rparr> 0 \<lparr> receiver = 9, amount = 100 \<rparr>] fundraising_init)
   = Inr ((run_fund [Create_campaign \<lparr> txn_sender = 1, current_application_address = 9, creator_address = 0, latest_timestamp = 0 \<rparr> 100 3 10 ''fest'' ''stage'',
        Donate \<lparr> txn_sender = 2, current_application_address = 9, creator_address = 0, latest_timestamp = 1 \<rparr> 0 \<lparr> receiver = 9, amount = 100 \<rparr>] fundraising_init)
        \<lparr> campaigns := (campaigns (run_fund [Create_campaign \<lparr> txn_sender = 1, current_application_address = 9, creator_address = 0, latest_timestamp = 0 \<rparr> 100 3 10 ''fest'' ''stage'',
        Donate \<lparr> txn_sender = 2, current_application_address = 9, creator_address = 0, latest_timestamp = 1 \<rparr> 0 \<lparr> receiver = 9, amount = 100 \<rparr>] fundraising_init))(0 \<mapsto>
             \<lparr> c_creator = 1, goal = 100, raised = 100, num_milestones = 3, milestones_released = 1,
               c_deadline = 10, active = True, fully_funded = True \<rparr>),
          fund_trace := fund_trace (run_fund [Create_campaign \<lparr> txn_sender = 1, current_application_address = 9, creator_address = 0, latest_timestamp = 0 \<rparr> 100 3 10 ''fest'' ''stage'',
        Donate \<lparr> txn_sender = 2, current_application_address = 9, creator_address = 0, latest_timestamp = 1 \<rparr> 0 \<lparr> receiver = 9, amount = 100 \<rparr>] fundraising_init) @
            [Inner_txn (Payment 1 33 0),
             Box_write (Put_campaign 0
               \<lparr> c_creator = 1, goal = 100, raised = 100, num_milestones = 3, milestones_released = 1,
                 c_deadline = 10, active = True, fully_funded = True \<rparr>)] \<rparr>)"
  by (simp add: fund_eval)

section \<open>The ticket issuance registry\<close>

lemma create_event_Inr:
  "create_event ctx name p m t st en descr s = Inr (eid, s') \<longleftrightarrow>
     0 < m \<and> m \<le> 100000 \<and> st < en \<and>
     unat (next_event_id s) + 1 < 2 ^ 64 \<and>
     eid = next_event_id s \<and>
     s' = s\<lparr> events := (events s)(next_event_id s \<mapsto>
                 \<lparr> organizer = txn_sender ctx, price = p, max_tickets = m, sold = 0,
                   transferable = t, start_time = st, end_time = en \<rparr>),
             next_event_id := next_event_id s + 1,
             tix_trace := tix_trace s @ [Box_write (Put_event (next_event_id s)
                 \<lparr> organizer = txn_sender ctx, price = p, max_tickets = m, sold = 0,
                   transferable = t, start_time = st, end_time = en \<rparr>)] \<rparr>"
  by (auto simp: create_event_def Let_def bind_Inr u64_add_Inr put_event_def)

lemma buy_ticket_Inr:
  "buy_ticket ctx aid eid payment s = Inr (a, s') \<longleftrightarrow>
     (\<exists>ev. events s eid = Some ev \<and> sold ev < max_tickets ev \<and>
        amount payment = price ev \<and> receiver payment = current_application_address ctx \<and>
        unat (sold ev) + 1 < 2 ^ 64 \<and> unat (total_tickets_sold s) + 1 < 2 ^ 64 \<and>
        a = aid \<and>
        s' = s\<lparr> tickets := (tickets s)(aid \<mapsto>
                    \<lparr> event_id = eid, owner = txn_sender ctx, ticket_number = sold ev,
                      used = False, purchase_time = latest_timestamp ctx \<rparr>),
                events := (events s)(eid \<mapsto> ev\<lparr> sold := sold ev + 1 \<rparr>),
                total_tickets_sold := total_tickets_sold s + 1,
                tix_trace := tix_trace s @
                  [Inner_txn (Asset_config aid), Inner_txn (Asset_transfer aid (txn_sender ctx) 1)] @
                  (if transferable ev then [] else [Inner_txn (Asset_freeze aid (txn_sender ctx) True)]) @
                  [Box_write (Put_ticket aid
                     \<lparr> event_id = eid, owner = txn_sender ctx, ticket_number = sold ev,
                       used = False, purchase_time = latest_timestamp ctx \<rparr>),
                   Box_write (Put_event eid (ev\<lparr> sold := sold ev + 1 \<rparr>))] \<rparr>)"
proof (cases "events s eid")
  case None
  then show ?thesis by (simp add: buy_ticket_def)
next
  case (Some ev)
  show ?thesis
  proof (cases "transferable ev")
    case True
    with Some show ?thesis
      by (auto simp: buy_ticket_def Let_def bind_Inr u64_add_Inr put_event_def put_ticket_def
          tix_submit_def)
  next
    case False
    with Some show ?thesis
      by (auto simp: buy_ticket_def Let_def bind_Inr u64_add_Inr put_event_def put_ticket_def
          tix_submit_def)
  qed
qed

lemma use_ticket_Inr:
  "use_ticket ctx aid s = Inr s' \<longleftrightarrow>
     (\<exists>tk ev. tickets s aid = Some tk \<and> events s (event_id tk) = Some ev \<and>
        txn_sender ctx = organizer ev \<and> \<not> used tk \<and>
        s' = s\<lparr> tickets := (tickets s)(aid \<mapsto> tk\<lparr> used := True \<rparr>),
                tix_trace := tix_trace s @ [Box_write (Put_ticket aid (tk\<lparr> used := True \<rparr>))] \<rparr>)"
  by (auto simp: use_ticket_def put_ticket_def split: option.splits)

lemma withdraw_sales_Inr:
  "withdraw_sales ctx eid s = Inr s' \<longleftrightarrow>
     (\<exists>ev. events s eid = Some ev \<and> txn_sender ctx = organizer ev \<and>
        unat (price ev) * unat (sold ev) < 2 ^ 64 \<and> 0 < price ev * sold ev \<and>
        s' = s\<lparr> tix_trace := tix_trace s @
                  [Inner_txn (Payment (txn_sender ctx) (price ev * sold ev) 0)] \<rparr>)"
  by (auto simp: withdraw_sales_def bind_Inr u64_mul_Inr tix_submit_def split: option.splits)

lemma word_less_succ_iff:
  fixes n a :: u64
  assumes "unat a + 1 < 2 ^ 64"
  shows "n < a + 1 \<longleftrightarrow> n < a \<or> n = a"
proof -
  have u: "unat (a + 1) = unat a + 1"
    using assms unat_u64_add [of a 1] by simp
  have "n < a + 1 \<longleftrightarrow> unat n < unat a + 1" by (simp add: word_less_nat_alt u)
  also have "\<dots> \<longleftrightarrow> unat n < unat a \<or> unat n = unat a" by auto
  also have "\<dots> \<longleftrightarrow> n < a \<or> n = a" by (simp add: word_less_nat_alt word_unat_eq_iff)
  finally show ?thesis .
qed

lemma create_event_proj:
  assumes "create_event ctx name p m t st en descr s = Inr (eid, s')"
  shows "eid = next_event_id s" and "unat (next_event_id s) + 1 < 2 ^ 64"
    and "next_event_id s' = next_event_id s + 1"
    and "tickets s' = tickets s"
    and "events s' = (events s)(next_event_id s \<mapsto>
                 \<lparr> organizer = txn_sender ctx, price = p, max_tickets = m, sold = 0,
                   transferable = t, start_time = st, end_time = en \<rparr>)"
  using assms by (simp_all add: create_event_Inr)

lemma buy_ticket_proj:
  assumes "buy_ticket ctx aid eid payment s = Inr (a, s')"
  obtains ev where "events s eid = Some ev" and "sold ev < max_tickets ev"
    and "amount payment = price ev" and "receiver payment = current_application_address ctx"
    and "a = aid" and "next_event_id s' = next_event_id s"
    and "tickets s' = (tickets s)(aid \<mapsto>
            \<lparr> event_id = eid, owner = txn_sender ctx, ticket_number = sold ev,
              used = False, purchase_time = latest_timestamp ctx \<rparr>)"
    and "events s' = (events s)(eid \<mapsto> ev\<lparr> sold := sold ev + 1 \<rparr>)"
  using assms unfolding buy_ticket_Inr by auto

lemma use_ticket_proj:
  assumes "use_ticket ctx aid s = Inr s'"
  obtains tk where "tickets s aid = Some tk" and "next_event_id s' = next_event_id s"
    and "tickets s' = (tickets s)(aid \<mapsto> tk\<lparr> used := True \<rparr>)"
    and "events s' = events s"
  using assms unfolding use_ticket_Inr by auto

lemma withdraw_sales_proj:
  assumes "withdraw_sales ctx eid s = Inr s'"
  shows "events s' = events s" and "tickets s' = tickets s"
    and "next_event_id s' = next_event_id s" and "total_tickets_sold s' = total_tickets_sold s"
  using assms unfolding withdraw_sales_Inr by auto

lemma tix_inv_init: "tix_inv ticketing_init"
  by (simp add: tix_inv_def ticketing_init_def)

lemma tix_invD:
  assumes "tix_inv s"
  shows "events s k = Some ev \<Longrightarrow> k < next_event_id s"
    and "events s k = Some ev \<Longrightarrow> sold ev \<le> max_tickets ev"
    and "tickets s a = Some tk \<Longrightarrow> \<exists>ev. events s (event_id tk) = Some ev \<and> ticket_number tk < sold ev"
    and "events s k = Some ev \<Longrightarrow> n < sold ev \<Longrightarrow>
           \<exists>a tk. tickets s a = Some tk \<and> event_id tk = k \<and> ticket_number tk = n"
    and "tickets s a = Some ta \<Longrightarrow> tickets s b = Some tb \<Longrightarrow>
           event_id ta = event_id tb \<Longrightarrow> ticket_number ta = ticket_number tb \<Longrightarrow> a = b"
  using assms unfolding tix_inv_def by blast+

lemma create_event_inv:
  assumes inv: "tix_inv s" and run: "create_event ctx name p m t st en descr s = Inr (eid, s')"
  shows "tix_inv s'"
proof -
  note c = create_event_proj [OF run]
  let ?new = "\<lparr> organizer = txn_sender ctx, price = p, max_tickets = m, sold = 0,
                   transferable = t, start_time = st, end_time = en \<rparr>"
  have fresh: "events s (next_event_id s) = None"
    using tix_invD(1) [OF inv, of "next_event_id s"] by (cases "events s (next_event_id s)") auto
  have other: "event_id tk \<noteq> next_event_id s" if "tickets s a = Some tk" for a tk
    using tix_invD(3) [OF inv that] fresh by auto
  show ?thesis
    unfolding tix_inv_def c(3) c(4) c(5)
  proof (intro conjI allI impI)
    fix k ev
    assume "((events s)(next_event_id s \<mapsto> ?new)) k = Some ev"
    then show "k < next_event_id s + 1" and "sold ev \<le> max_tickets ev"
      using tix_invD(1,2) [OF inv, of k ev] word_less_succ [OF c(2)]
      by (auto split: if_splits)
  next
    fix a tk
    assume "tickets s a = Some tk"
    with tix_invD(3) [OF inv this] other [OF this]
    show "\<exists>ev. ((events s)(next_event_id s \<mapsto> ?new)) (event_id tk) = Some ev \<and> ticket_number tk < sold ev"
      by simp
  next
    fix k ev n
    assume "((events s)(next_event_id s \<mapsto> ?new)) k = Some ev \<and> n < sold ev"
    then have "events s k = Some ev \<and> n < sold ev"
      by (auto split: if_splits)
    then show "\<exists>a tk. tickets s a = Some tk \<and> event_id tk = k \<and> ticket_number tk = n"
      using tix_invD(4) [OF inv] by blast
  next
    fix a b ta tb
    assume "tickets s a = Some ta \<and> tickets s b = Some tb \<and>
        event_id ta = event_id tb \<and> ticket_number ta = ticket_number tb"
    then show "a = b" using tix_invD(5) [OF inv] by blast
  qed
qed

lemma buy_ticket_inv:
  assumes inv: "tix_inv s" and fresh: "tickets s aid = None"
    and run: "buy_ticket ctx aid eid payment s = Inr (a, s')"
  shows "tix_inv s'"
proof -
  from run obtain ev where ev: "events s eid = Some ev" and lt: "sold ev < max_tickets ev"
    and nx: "next_event_id s' = next_event_id s"
    and ts: "tickets s' = (tickets s)(aid \<mapsto>
            \<lparr> event_id = eid, owner = txn_sender ctx, ticket_number = sold ev,
              used = False, purchase_time = latest_timestamp ctx \<rparr>)"
    and es: "events s' = (events s)(eid \<mapsto> ev\<lparr> sold := sold ev + 1 \<rparr>)"
    by (rule buy_ticket_proj)
  let ?tk = "\<lparr> event_id = eid, owner = txn_sender ctx, ticket_number = sold ev,
              used = False, purchase_time = latest_timestamp ctx \<rparr>"
  let ?ev = "ev\<lparr> sold := sold ev + 1 \<rparr>"
  note u = unat_succ_below [OF lt]
  have fits: "unat (sold ev) + 1 < 2 ^ 64"
  proof -
    have "unat (sold ev + 1) < 2 ^ 64" using unsigned_less [of "sold ev + 1"] by simp
    then show ?thesis unfolding u(1) .
  qed
  note less = word_less_succ_iff [OF fits]
  have old_below: "ticket_number tk < sold ev"
    if "tickets s b = Some tk" and "event_id tk = eid" for b tk
  proof -
    from tix_invD(3) [OF inv that(1)] obtain e0 where
      "events s (event_id tk) = Some e0" "ticket_number tk < sold e0" by blast
    with that(2) ev show ?thesis by simp
  qed
  have old_key: "b \<noteq> aid" if "tickets s b = Some tk" for b tk
    using that fresh by auto
  show ?thesis
    unfolding tix_inv_def nx ts es
  proof (intro conjI allI impI)
    fix k e
    assume h: "((events s)(eid \<mapsto> ?ev)) k = Some e"
    show "k < next_event_id s"
    proof (cases "k = eid")
      case True
      with tix_invD(1) [OF inv ev] show ?thesis by simp
    next
      case False
      with h have "events s k = Some e" by simp
      then show ?thesis by (rule tix_invD(1) [OF inv])
    qed
    show "sold e \<le> max_tickets e"
    proof (cases "k = eid")
      case True
      with h have "e = ?ev" by simp
      with u(2) show ?thesis by simp
    next
      case False
      with h have "events s k = Some e" by simp
      then show ?thesis by (rule tix_invD(2) [OF inv])
    qed
  next
    fix b tk
    assume b: "((tickets s)(aid \<mapsto> ?tk)) b = Some tk"
    show "\<exists>e. ((events s)(eid \<mapsto> ?ev)) (event_id tk) = Some e \<and> ticket_number tk < sold e"
    proof (cases "b = aid")
      case True
      with b have tk: "tk = ?tk" by simp
      have "sold ev < sold ev + 1" unfolding less by simp
      then show ?thesis by (simp add: tk)
    next
      case False
      with b have old: "tickets s b = Some tk" by simp
      show ?thesis
      proof (cases "event_id tk = eid")
        case True
        from old_below [OF old True] have "ticket_number tk < sold ev + 1"
          unfolding less by simp
        with True show ?thesis by simp
      next
        case False
        from tix_invD(3) [OF inv old] False show ?thesis by simp
      qed
    qed
  next
    fix k e n
    assume h: "((events s)(eid \<mapsto> ?ev)) k = Some e \<and> n < sold e"
    have "n = sold ev \<and> k = eid \<or> (\<exists>e0. events s k = Some e0 \<and> n < sold e0)"
    proof (cases "k = eid")
      case True
      with h have "e = ?ev" by simp
      with h have "n < sold ev + 1" by simp
      then have "n < sold ev \<or> n = sold ev" unfolding less .
      with True ev show ?thesis by auto
    next
      case False
      with h show ?thesis by simp
    qed
    then show "\<exists>b tk. ((tickets s)(aid \<mapsto> ?tk)) b = Some tk \<and> event_id tk = k \<and> ticket_number tk = n"
    proof
      assume "n = sold ev \<and> k = eid"
      then have "((tickets s)(aid \<mapsto> ?tk)) aid = Some ?tk \<and> event_id ?tk = k \<and> ticket_number ?tk = n"
        by simp
      then show ?thesis by blast
    next
      assume "\<exists>e0. events s k = Some e0 \<and> n < sold e0"
      then obtain e0 where "events s k = Some e0" "n < sold e0" by blast
      from tix_invD(4) [OF inv this] obtain b tk where
        b: "tickets s b = Some tk" "event_id tk = k" "ticket_number tk = n" by blast
      from old_key [OF b(1)] b
      have "((tickets s)(aid \<mapsto> ?tk)) b = Some tk \<and> event_id tk = k \<and> ticket_number tk = n"
        by simp
      then show ?thesis by blast
    qed
  next
    fix b c tb tc
    assume h: "((tickets s)(aid \<mapsto> ?tk)) b = Some tb \<and> ((tickets s)(aid \<mapsto> ?tk)) c = Some tc \<and>
        event_id tb = event_id tc \<and> ticket_number tb = ticket_number tc"
    then have hb: "((tickets s)(aid \<mapsto> ?tk)) b = Some tb"
      and hc: "((tickets s)(aid \<mapsto> ?tk)) c = Some tc"
      and he: "event_id tb = event_id tc" and hn: "ticket_number tb = ticket_number tc"
      by simp_all
    show "b = c"
    proof (cases "b = aid")
      case bt: True
      with hb have tb: "tb = ?tk" by simp
      show ?thesis
      proof (cases "c = aid")
        case True
        with bt show ?thesis by simp
      next
        case False
        with hc have oc: "tickets s c = Some tc" by simp
        from he hn tb have "event_id tc = eid" "ticket_number tc = sold ev" by simp_all
        with old_below [OF oc] show ?thesis by simp
      qed
    next
      case bf: False
      with hb have ob: "tickets s b = Some tb" by simp
      show ?thesis
      proof (cases "c = aid")
        case True
        with hc have tc: "tc = ?tk" by simp
        from he hn tc have "event_id tb = eid" "ticket_number tb = sold ev" by simp_all
        with old_below [OF ob] show ?thesis by simp
      next
        case False
        with hc have "tickets s c = Some tc" by simp
        from tix_invD(5) [OF inv ob this he hn] show ?thesis .
      qed
    qed
  qed
qed

lemma use_ticket_inv:
  assumes inv: "tix_inv s" and run: "use_ticket ctx aid s = Inr s'"
  shows "tix_inv s'"
proof -
  from run obtain tk0 where tk0: "tickets s aid = Some tk0"
    and nx: "next_event_id s' = next_event_id s"
    and ts: "tickets s' = (tickets s)(aid \<mapsto> tk0\<lparr> used := True \<rparr>)"
    and es: "events s' = events s"
    by (rule use_ticket_proj)
  have same: "\<exists>tk'. tickets s b = Some tk' \<and> event_id tk' = event_id tk \<and>
       ticket_number tk' = ticket_number tk"
    if "((tickets s)(aid \<mapsto> tk0\<lparr> used := True \<rparr>)) b = Some tk" for b tk
  proof (cases "b = aid")
    case True
    with that have "tk = tk0\<lparr> used := True \<rparr>" by simp
    with True tk0 show ?thesis by simp
  next
    case False
    with that show ?thesis by simp
  qed
  have fwd: "\<exists>tk'. ((tickets s)(aid \<mapsto> tk0\<lparr> used := True \<rparr>)) b = Some tk' \<and>
       event_id tk' = event_id tk \<and> ticket_number tk' = ticket_number tk"
    if "tickets s b = Some tk" for b tk
  proof (cases "b = aid")
    case True
    with that tk0 have "tk = tk0" by simp
    with True show ?thesis by simp
  next
    case False
    with that show ?thesis by simp
  qed
  show ?thesis
    unfolding tix_inv_def nx ts es
  proof (intro conjI allI impI)
    fix k ev
    assume "events s k = Some ev"
    then show "k < next_event_id s" and "sold ev \<le> max_tickets ev"
      using tix_invD(1,2) [OF inv] by blast+
  next
    fix b tk
    assume "((tickets s)(aid \<mapsto> tk0\<lparr> used := True \<rparr>)) b = Some tk"
    from same [OF this] obtain tk' where t: "tickets s b = Some tk'" "event_id tk' = event_id tk"
       "ticket_number tk' = ticket_number tk" by blast
    from tix_invD(3) [OF inv t(1)] t(2,3)
    show "\<exists>ev. events s (event_id tk) = Some ev \<and> ticket_number tk < sold ev" by simp
  next
    fix k ev n
    assume "events s k = Some ev \<and> n < sold ev"
    then obtain b tk where "tickets s b = Some tk" "event_id tk = k" "ticket_number tk = n"
      using tix_invD(4) [OF inv] by blast
    note old = this
    from fwd [OF old(1)] obtain tk' where
      "((tickets s)(aid \<mapsto> tk0\<lparr> used := True \<rparr>)) b = Some tk'"
      "event_id tk' = event_id tk" "ticket_number tk' = ticket_number tk" by blast
    with old(2,3) have "((tickets s)(aid \<mapsto> tk0\<lparr> used := True \<rparr>)) b = Some tk' \<and>
        event_id tk' = k \<and> ticket_number tk' = n" by simp
    then show "\<exists>b tk. ((tickets s)(aid \<mapsto> tk0\<lparr> used := True \<rparr>)) b = Some tk \<and>
        event_id tk = k \<and> ticket_number tk = n" by blast
  next
    fix b c tb tc
    assume h: "((tickets s)(aid \<mapsto> tk0\<lparr> used := True \<rparr>)) b = Some tb \<and>
        ((tickets s)(aid \<mapsto> tk0\<lparr> used := True \<rparr>)) c = Some tc \<and>
        event_id tb = event_id tc \<and> ticket_number tb = ticket_number tc"
    from h same [of b tb] obtain tb' where b': "tickets s b = Some tb'" "event_id tb' = event_id tb"
       "ticket_number tb' = ticket_number tb" by blast
    from h same [of c tc] obtain tc' where c': "tickets s c = Some tc'" "event_id tc' = event_id tc"
       "ticket_number tc' = ticket_number tc" by blast
    from h have "event_id tb = event_id tc" "ticket_number tb = ticket_number tc" by simp_all
    with b'(2,3) c'(2,3) have "event_id tb' = event_id tc'" "ticket_number tb' = ticket_number tc'"
      by simp_all
    with b'(1) c'(1) show "b = c" by (rule tix_invD(5) [OF inv])
  qed
qed

lemma withdraw_sales_inv:
  assumes "tix_inv s" and "withdraw_sales ctx eid s = Inr s'"
  shows "tix_inv s'"
  using assms(1) unfolding tix_inv_def withdraw_sales_proj(1-3) [OF assms(2)] .

lemmas tix_eval = create_event_def buy_ticket_def use_ticket_def withdraw_sales_def
  put_event_def put_ticket_def tix_submit_def ticketing_init_def bind_def u64_add_def
  u64_mul_def Let_def

lemma ticket_step_inv:
  assumes "tix_inv s" and "assets_fresh (c # cs) s"
  shows "tix_inv (ticket_step c s) \<and> assets_fresh cs (ticket_step c s)"
proof (cases c)
  case (Create_event ctx n p m t st en d)
  show ?thesis
  proof (cases "create_event ctx n p m t st en d s")
    case (Inl e)
    with Create_event assms show ?thesis by simp
  next
    case (Inr r)
    obtain k s' where r: "r = (k, s')" by (cases r)
    with Inr Create_event have step: "ticket_step c s = s'" by simp
    from assms(1) Inr [unfolded r] have "tix_inv s'" by (rule create_event_inv)
    with assms(2) show ?thesis unfolding step [symmetric] by (simp add: Create_event)
  qed
next
  case (Buy_ticket ctx aid eid p)
  with assms(2) have fresh: "tickets s aid = None" by simp
  show ?thesis
  proof (cases "buy_ticket ctx aid eid p s")
    case (Inl e)
    with Buy_ticket assms show ?thesis by simp
  next
    case (Inr r)
    obtain a s' where r: "r = (a, s')" by (cases r)
    with Inr Buy_ticket have step: "ticket_step c s = s'" by simp
    from assms(1) fresh Inr [unfolded r] have "tix_inv s'" by (rule buy_ticket_inv)
    with assms(2) show ?thesis unfolding step [symmetric] by (simp add: Buy_ticket)
  qed
next
  case (Use_ticket ctx aid)
  show ?thesis
  proof (cases "use_ticket ctx aid s")
    case (Inl e)
    with Use_ticket assms show ?thesis by simp
  next
    case (Inr s')
    with Use_ticket have step: "ticket_step c s = s'" by simp
    from assms(1) Inr have "tix_inv s'" by (rule use_ticket_inv)
    with assms(2) show ?thesis unfolding step [symmetric] by (simp add: Use_ticket)
  qed
next
  case (Withdraw_sales ctx eid)
  show ?thesis
  proof (cases "withdraw_sales ctx eid s")
    case (Inl e)
    with Withdraw_sales assms show ?thesis by simp
  next
    case (Inr s')
    with Withdraw_sales have step: "ticket_step c s = s'" by simp
    from assms(1) Inr have "tix_inv s'" by (rule withdraw_sales_inv)
    with assms(2) show ?thesis unfolding step [symmetric] by (simp add: Withdraw_sales)
  qed
qed

lemma run_tickets_inv:
  "tix_inv s \<Longrightarrow> assets_fresh cs s \<Longrightarrow> tix_inv (run_tickets cs s)"
proof (induction cs arbitrary: s)
  case Nil
  then show ?case by simp
next
  case (Cons c cs)
  from ticket_step_inv [OF Cons.prems]
  have "tix_inv (ticket_step c s)" "assets_fresh cs (ticket_step c s)" by simp_all
  from Cons.IH [OF this] show ?case by simp
qed

lemma buy_ticket_sold_out:
  assumes "events s eid = Some ev" and "\<not> sold ev < max_tickets ev"
  shows "buy_ticket ctx aid eid payment s = Inl Sold_out"
  using assms by (simp add: buy_ticket_def)

text \<open>
  Claim C6, as amended.  Take any history in which the substrate hands out fresh asset
  ids, and any event \<open>ev\<close> of the state reached.  Then \<open>sold \<le> max_tickets\<close>; every number
  below \<open>sold\<close> is the \<open>ticket_number\<close> of exactly one ticket of the event, and no ticket
  of the event has a number outside \<open>0..sold - 1\<close>.  When \<open>sold = max_tickets - 1\<close>, a
  purchase (the exact price, paid to the program) succeeds provided the global counter
  \<open>total_tickets_sold\<close> is below \<open>2\<^sup>6\<^sup>4 - 1\<close>: it gets the number \<open>max_tickets - 1\<close> and
  brings \<open>sold\<close> to \<open>max_tickets\<close>, and every \<^verbatim>\<open>buy_ticket\<close> call after it fails with
  ``Sold out!''.  With the global counter full the purchase fails on the increment of
  the counter.  In any state with \<open>sold = max_tickets\<close> every call fails with ``Sold
  out!''.
\<close>

theorem ticket_numbers_dense:
  assumes "assets_fresh history ticketing_init"
    and "s = run_tickets history ticketing_init"
    and "events s eid = Some ev"
  shows "sold ev \<le> max_tickets ev \<and>
     (\<forall>n. n < sold ev \<longrightarrow>
        (\<exists>!a. \<exists>tk. tickets s a = Some tk \<and> event_id tk = eid \<and> ticket_number tk = n)) \<and>
     (\<forall>a tk. tickets s a = Some tk \<and> event_id tk = eid \<longrightarrow> ticket_number tk < sold ev) \<and>
     (\<forall>ctx aid payment.
        unat (sold ev) + 1 = unat (max_tickets ev) \<and> amount payment = price ev \<and>
        receiver payment = current_application_address ctx \<and>
        unat (total_tickets_sold s) + 1 < 2 ^ 64 \<longrightarrow>
        (\<exists>s' ev'. buy_ticket ctx aid eid payment s = Inr (aid, s') \<and>
           events s' eid = Some ev' \<and> sold ev' = max_tickets ev' \<and>
           max_tickets ev' = max_tickets ev \<and>
           (\<exists>tk. tickets s' aid = Some tk \<and> event_id tk = eid \<and> ticket_number tk = sold ev) \<and>
           (\<forall>ctx' aid' payment'. buy_ticket ctx' aid' eid payment' s' = Inl Sold_out))) \<and>
     (\<forall>ctx aid payment.
        unat (sold ev) + 1 = unat (max_tickets ev) \<and> amount payment = price ev \<and>
        receiver payment = current_application_address ctx \<and>
        \<not> unat (total_tickets_sold s) + 1 < 2 ^ 64 \<longrightarrow>
        buy_ticket ctx aid eid payment s = Inl Arith_overflow) \<and>
     (sold ev = max_tickets ev \<longrightarrow>
        (\<forall>ctx aid payment. buy_ticket ctx aid eid payment s = Inl Sold_out))"
proof -
  have inv: "tix_inv s"
    unfolding assms(2) using tix_inv_init assms(1) by (rule run_tickets_inv)
  have cap: "sold ev \<le> max_tickets ev" using inv assms(3) by (rule tix_invD(2))
  have dense: "\<exists>!a. \<exists>tk. tickets s a = Some tk \<and> event_id tk = eid \<and> ticket_number tk = n"
    if "n < sold ev" for n
  proof -
    from tix_invD(4) [OF inv assms(3) that] obtain a tk where
      a: "tickets s a = Some tk" "event_id tk = eid" "ticket_number tk = n" by blast
    show ?thesis
    proof (rule ex1I [of _ a])
      from a show "\<exists>tk. tickets s a = Some tk \<and> event_id tk = eid \<and> ticket_number tk = n" by blast
    next
      fix b
      assume "\<exists>tk. tickets s b = Some tk \<and> event_id tk = eid \<and> ticket_number tk = n"
      then obtain tb where b: "tickets s b = Some tb" "event_id tb = eid" "ticket_number tb = n"
        by blast
      from b(1) a(1) show "b = a"
        by (rule tix_invD(5) [OF inv]) (simp_all add: a b)
    qed
  qed
  have below: "ticket_number tk < sold ev" if "tickets s a = Some tk \<and> event_id tk = eid" for a tk
  proof -
    from that have t: "tickets s a = Some tk" and e: "event_id tk = eid" by simp_all
    from tix_invD(3) [OF inv t] e assms(3) show ?thesis by auto
  qed
  have last: "\<exists>s' ev'. buy_ticket ctx aid eid payment s = Inr (aid, s') \<and>
           events s' eid = Some ev' \<and> sold ev' = max_tickets ev' \<and>
           max_tickets ev' = max_tickets ev \<and>
           (\<exists>tk. tickets s' aid = Some tk \<and> event_id tk = eid \<and> ticket_number tk = sold ev) \<and>
           (\<forall>ctx' aid' payment'. buy_ticket ctx' aid' eid payment' s' = Inl Sold_out)"
    if h: "unat (sold ev) + 1 = unat (max_tickets ev) \<and> amount payment = price ev \<and>
        receiver payment = current_application_address ctx \<and>
        unat (total_tickets_sold s) + 1 < 2 ^ 64" for ctx aid payment
  proof -
    from h have one: "unat (sold ev) + 1 = unat (max_tickets ev)" by simp
    then have lt: "sold ev < max_tickets ev" by (simp add: word_less_nat_alt)
    note u = unat_succ_below [OF lt]
    from u(1) one have full: "sold ev + 1 = max_tickets ev"
      by (simp add: word_unat_eq_iff)
    let ?tk = "\<lparr> event_id = eid, owner = txn_sender ctx, ticket_number = sold ev,
                used = False, purchase_time = latest_timestamp ctx \<rparr>"
    let ?ev = "ev\<lparr> sold := sold ev + 1 \<rparr>"
    define s' where "s' = s\<lparr> tickets := (tickets s)(aid \<mapsto> ?tk),
                events := (events s)(eid \<mapsto> ?ev),
                total_tickets_sold := total_tickets_sold s + 1,
                tix_trace := tix_trace s @
                  [Inner_txn (Asset_config aid), Inner_txn (Asset_transfer aid (txn_sender ctx) 1)] @
                  (if transferable ev then [] else [Inner_txn (Asset_freeze aid (txn_sender ctx) True)]) @
                  [Box_write (Put_ticket aid ?tk), Box_write (Put_event eid ?ev)] \<rparr>"
    have fits: "unat (sold ev) + 1 < 2 ^ 64"
      using one unsigned_less [of "max_tickets ev"] by simp
    have run: "buy_ticket ctx aid eid payment s = Inr (aid, s')"
      unfolding buy_ticket_Inr s'_def using assms(3) lt h fits by simp
    have e': "events s' eid = Some ?ev" and t': "tickets s' aid = Some ?tk"
      by (simp_all add: s'_def)
    have "\<not> sold ?ev < max_tickets ?ev" using full by simp
    with e' have "buy_ticket ctx' aid' eid payment' s' = Inl Sold_out" for ctx' aid' payment'
      by (rule buy_ticket_sold_out)
    with run e' t' full show ?thesis by simp
  qed
  have out: "buy_ticket ctx aid eid payment s = Inl Sold_out"
    if "sold ev = max_tickets ev" for ctx aid payment
    using assms(3) that by (simp add: buy_ticket_def)
  have full_counter: "buy_ticket ctx aid eid payment s = Inl Arith_overflow"
    if h: "unat (sold ev) + 1 = unat (max_tickets ev) \<and> amount payment = price ev \<and>
        receiver payment = current_application_address ctx \<and>
        \<not> unat (total_tickets_sold s) + 1 < 2 ^ 64" for ctx aid payment
  proof -
    from h have one: "unat (sold ev) + 1 = unat (max_tickets ev)" by simp
    then have lt: "sold ev < max_tickets ev" by (simp add: word_less_nat_alt)
    have fits: "unat (sold ev) + 1 < 2 ^ 64"
      using one unsigned_less [of "max_tickets ev"] by simp
    from assms(3) lt h fits show ?thesis
      by (simp add: buy_ticket_def Let_def bind_def u64_add_def put_event_def put_ticket_def
          tix_submit_def)
  qed
  from cap dense below last full_counter out show ?thesis by blast
qed

theorem ticket_numbers_dense_witness:
  "\<exists>s'. buy_ticket \<lparr> txn_sender = 3, current_application_address = 9, creator_address = 0, latest_timestamp = 2 \<rparr> 1002 0 \<lparr> receiver = 9, amount = 5 \<rparr>
          (run_tickets [Create_event \<lparr> txn_sender = 1, current_application_address = 9, creator_address = 0, latest_timestamp = 0 \<rparr> ''fest'' 5 2 False 100 200 ''night'',
          Buy_ticket \<lparr> txn_sender = 2, current_application_address = 9, creator_address = 0, latest_timestamp = 1 \<rparr> 1001 0 \<lparr> receiver = 9, amount = 5 \<rparr>] ticketing_init) = Inr (1002, s')
     \<and> buy_ticket \<lparr> txn_sender = 4, current_application_address = 9, creator_address = 0, latest_timestamp = 3 \<rparr> 1003 0 \<lparr> receiver = 9, amount = 5 \<rparr> s' = Inl Sold_out"
proof -
  let ?h = "[Create_event \<lparr> txn_sender = 1, current_application_address = 9, creator_address = 0, latest_timestamp = 0 \<rparr> ''fest'' 5 2 False 100 200 ''night'',
          Buy_ticket \<lparr> txn_sender = 2, current_application_address = 9, creator_address = 0, latest_timestamp = 1 \<rparr> 1001 0 \<lparr> receiver = 9, amount = 5 \<rparr>]"
  have f: "assets_fresh ?h ticketing_init"
    by (simp add: tix_eval)
  have e: "events (run_tickets ?h ticketing_init) 0 =
      Some \<lparr> organizer = 1, price = 5, max_tickets = 2, sold = 1, transferable = False,
             start_time = 100, end_time = 200 \<rparr>"
    and t: "total_tickets_sold (run_tickets ?h ticketing_init) = 1"
    by (simp_all add: tix_eval)
  from ticket_numbers_dense [OF f refl e]
  have "\<forall>ctx aid payment.
        unat (1 :: u64) + 1 = unat (2 :: u64) \<and> amount payment = 5 \<and>
        receiver payment = current_application_address ctx \<and>
        unat (total_tickets_sold (run_tickets ?h ticketing_init)) + 1 < 2 ^ 64 \<longrightarrow>
        (\<exists>s' ev'. buy_ticket ctx aid 0 payment (run_tickets ?h ticketing_init) = Inr (aid, s') \<and>
           events s' 0 = Some ev' \<and> sold ev' = max_tickets ev' \<and>
           max_tickets ev' = 2 \<and>
           (\<exists>tk. tickets s' aid = Some tk \<and> event_id tk = 0 \<and> ticket_number tk = 1) \<and>
           (\<forall>ctx' aid' payment'. buy_ticket ctx' aid' 0 payment' s' = Inl Sold_out))"
    by simp
  from this [rule_format, of "\<lparr> receiver = 9, amount = 5 \<rparr>" "\<lparr> txn_sender = 3, current_application_address = 9, creator_address = 0, latest_timestamp = 2 \<rparr>" 1002]
  obtain s' where "buy_ticket \<lparr> txn_sender = 3, current_application_address = 9, creator_address = 0, latest_timestamp = 2 \<rparr> 1002 0 \<lparr> receiver = 9, amount = 5 \<rparr>
          (run_tickets ?h ticketing_init) = Inr (1002, s')"
    and "\<forall>ctx' aid' payment'. buy_ticket ctx' aid' 0 payment' s' = Inl Sold_out"
    unfolding t by auto
  then show ?thesis by blast
qed

text \<open>
  The state \<open>counter_full_state\<close> satisfies the invariant of the reachable states: asset id
  \<open>a\<close> and the pair (\<open>a div 65537\<close>, \<open>a mod 65537\<close>) of event and ticket number determine
  each other.
\<close>

lemma cfs_div:
  fixes a :: u64
  assumes "a < 18446744073709551615"
  shows "a div 65537 < 281470681808895"
proof -
  have eq: "(18446744073709551615::nat) = 281470681808895 * 65537" by simp
  from assms have "unat a < 18446744073709551615" by (simp add: word_less_nat_alt)
  then have "unat a < 281470681808895 * 65537" unfolding eq .
  then have "unat a div 65537 < 281470681808895" by (rule less_mult_imp_div_less)
  then show ?thesis by (simp add: word_less_nat_alt unat_div)
qed

lemma cfs_mod:
  fixes a :: u64
  shows "a mod 65537 < 65537"
  by (simp add: word_less_nat_alt unat_mod)

lemma cfs_compose:
  fixes k n :: u64
  assumes "k < 281470681808895" and "n < 65537"
  shows "k * 65537 + n < 18446744073709551615 \<and> (k * 65537 + n) div 65537 = k \<and> (k * 65537 + n) mod 65537 = n"
proof -
  from assms have k: "unat k < 281470681808895" and n: "unat n < 65537"
    by (simp_all add: word_less_nat_alt)
  then have lt: "unat k * 65537 + unat n < 18446744073709551615" by simp
  have m: "unat (k * 65537) = unat k * 65537"
    using k by (simp add: unat_mult_lem [THEN iffD1])
  have u: "unat (k * 65537 + n) = unat k * 65537 + unat n"
    using lt m by (simp add: unat_add_lem [THEN iffD1])
  have 1: "k * 65537 + n < 18446744073709551615"
    using lt u by (simp add: word_less_nat_alt)
  have 2: "unat ((k * 65537 + n) div 65537) = unat k"
    using n by (simp add: unat_div u)
  have 3: "unat ((k * 65537 + n) mod 65537) = unat n"
    using n by (simp add: unat_mod u)
  from 1 2 3 show ?thesis by (simp add: word_unat_eq_iff)
qed

lemma cfs_inj:
  fixes a b :: u64
  assumes "a div 65537 = b div 65537" and "a mod 65537 = b mod 65537"
  shows "a = b"
proof -
  have "a = a div 65537 * 65537 + a mod 65537" by (rule div_mult_mod_eq [symmetric])
  also have "\<dots> = b div 65537 * 65537 + b mod 65537" by (simp only: assms)
  also have "\<dots> = b" by (rule div_mult_mod_eq)
  finally show ?thesis .
qed

lemma counter_full_state_inv: "tix_inv counter_full_state"
  unfolding tix_inv_def
proof (intro conjI allI impI)
  fix k ev assume "events counter_full_state k = Some ev"
  then show "k < next_event_id counter_full_state"
    by (simp add: counter_full_state_def split: if_splits)
next
  fix k ev assume "events counter_full_state k = Some ev"
  then show "sold ev \<le> max_tickets ev"
    by (auto simp add: counter_full_state_def split: if_splits)
next
  fix a tk assume "tickets counter_full_state a = Some tk"
  then show "\<exists>ev. events counter_full_state (event_id tk) = Some ev \<and> ticket_number tk < sold ev"
    by (auto simp add: counter_full_state_def cfs_div cfs_mod split: if_splits)
next
  fix k ev n assume "events counter_full_state k = Some ev \<and> n < sold ev"
  then have "k < 281470681808895" "n < 65537"
    by (auto simp add: counter_full_state_def split: if_splits)
  from cfs_compose [OF this]
  show "\<exists>a tk. tickets counter_full_state a = Some tk \<and> event_id tk = k \<and> ticket_number tk = n"
    by (intro exI [of _ "k * 65537 + n"]) (simp add: counter_full_state_def)
next
  fix a b ta tb
  assume "tickets counter_full_state a = Some ta \<and> tickets counter_full_state b = Some tb \<and>
        event_id ta = event_id tb \<and> ticket_number ta = ticket_number tb"
  then have "a div 65537 = b div 65537" "a mod 65537 = b mod 65537"
    by (auto simp add: counter_full_state_def split: if_splits)
  then show "a = b" by (rule cfs_inj)
qed

text \<open>
  The claim as stated fails where the global counter is full.  In \<open>counter_full_state\<close>
  event 0 has sold 65537 of its 65538 tickets, so the next purchase is its
  \<open>max_tickets\<close>-th; the price 5 is paid to the program and the asset id is fresh; but
  \<open>2\<^sup>6\<^sup>4 - 1\<close> tickets have been sold over all events, and the call fails on
  \<^verbatim>\<open>self.total_tickets_sold += UInt64(1)\<close>.
\<close>

theorem buy_ticket_counterexample:
  "events counter_full_state 0 =
      Some \<lparr> organizer = 1, price = 5, max_tickets = 65538, sold = 65537,
             transferable = False, start_time = 100, end_time = 200 \<rparr>
   \<and> tickets counter_full_state 18446744073709551615 = None
   \<and> total_tickets_sold counter_full_state = 18446744073709551615
   \<and> buy_ticket \<lparr> txn_sender = 3, current_application_address = 9, creator_address = 0, latest_timestamp = 2 \<rparr>
        18446744073709551615 0 \<lparr> receiver = 9, amount = 5 \<rparr> counter_full_state
      = Inl Arith_overflow"
  by (simp add: counter_full_state_def buy_ticket_def Let_def bind_def u64_add_def
      put_event_def put_ticket_def tix_submit_def)

text \<open>
  Claim C8, as amended.  A \<^verbatim>\<open>withdraw_sales\<close> call by the event's organizer succeeds
  exactly when \<open>price * sold\<close> is positive and fits 64 bits.  A successful call pays
  exactly \<open>price * sold\<close> to the caller and changes nothing else: the event record, the
  tickets and the counters are as before, only the trace has gained the payment.  The
  same call in the resulting state succeeds again and pays the same amount again.
\<close>

theorem withdraw_sales_spec:
  assumes "events s eid = Some ev" and "txn_sender ctx = organizer ev"
  shows "((\<exists>s'. withdraw_sales ctx eid s = Inr s') \<longleftrightarrow>
            0 < unat (price ev) * unat (sold ev) \<and> unat (price ev) * unat (sold ev) < 2 ^ 64) \<and>
         (\<forall>s'. withdraw_sales ctx eid s = Inr s' \<longrightarrow>
            s' = s\<lparr> tix_trace := tix_trace s @
                    [Inner_txn (Payment (txn_sender ctx) (price ev * sold ev) 0)] \<rparr> \<and>
            unat (price ev * sold ev) = unat (price ev) * unat (sold ev) \<and>
            events s' = events s \<and> tickets s' = tickets s \<and>
            next_event_id s' = next_event_id s \<and>
            total_tickets_sold s' = total_tickets_sold s \<and>
            withdraw_sales ctx eid s' =
              Inr (s'\<lparr> tix_trace := tix_trace s' @
                    [Inner_txn (Payment (txn_sender ctx) (price ev * sold ev) 0)] \<rparr>))"
proof -
  have prod: "unat (price ev * sold ev) = unat (price ev) * unat (sold ev)"
    if "unat (price ev) * unat (sold ev) < 2 ^ 64"
    using that by (simp add: unat_mult_lem [THEN iffD1])
  have pos: "0 < price ev * sold ev \<longleftrightarrow> 0 < unat (price ev) * unat (sold ev)"
    if "unat (price ev) * unat (sold ev) < 2 ^ 64"
    using prod [OF that] by (metis unat_gt_0 word_neq_0_conv)
  have succeeds: "(\<exists>s'. withdraw_sales ctx eid s = Inr s') \<longleftrightarrow>
      0 < unat (price ev) * unat (sold ev) \<and> unat (price ev) * unat (sold ev) < 2 ^ 64"
    unfolding withdraw_sales_Inr using assms pos by auto
  have effect: "s' = s\<lparr> tix_trace := tix_trace s @
                    [Inner_txn (Payment (txn_sender ctx) (price ev * sold ev) 0)] \<rparr> \<and>
            unat (price ev * sold ev) = unat (price ev) * unat (sold ev) \<and>
            events s' = events s \<and> tickets s' = tickets s \<and>
            next_event_id s' = next_event_id s \<and>
            total_tickets_sold s' = total_tickets_sold s \<and>
            withdraw_sales ctx eid s' =
              Inr (s'\<lparr> tix_trace := tix_trace s' @
                    [Inner_txn (Payment (txn_sender ctx) (price ev * sold ev) 0)] \<rparr>)"
    if run: "withdraw_sales ctx eid s = Inr s'" for s'
  proof -
    from run assms(1) have fits: "unat (price ev) * unat (sold ev) < 2 ^ 64"
      and nz: "0 < price ev * sold ev"
      and s': "s' = s\<lparr> tix_trace := tix_trace s @
                    [Inner_txn (Payment (txn_sender ctx) (price ev * sold ev) 0)] \<rparr>"
      unfolding withdraw_sales_Inr by auto
    have e': "events s' eid = Some ev" using assms(1) by (simp add: s')
    have again: "withdraw_sales ctx eid s' =
              Inr (s'\<lparr> tix_trace := tix_trace s' @
                    [Inner_txn (Payment (txn_sender ctx) (price ev * sold ev) 0)] \<rparr>)"
      unfolding withdraw_sales_Inr using e' assms(2) fits nz by simp
    from s' prod [OF fits] again show ?thesis by simp
  qed
  from succeeds effect show ?thesis by blast
qed

theorem withdraw_sales_spec_witness:
  "\<exists>s'. withdraw_sales \<lparr> txn_sender = 1, current_application_address = 9, creator_address = 0, latest_timestamp = 5 \<rparr> 0 (run_tickets [Create_event \<lparr> txn_sender = 1, current_application_address = 9, creator_address = 0, latest_timestamp = 0 \<rparr> ''fest'' 5 2 False 100 200 ''night'',
          Buy_ticket \<lparr> txn_sender = 2, current_application_address = 9, creator_address = 0, latest_timestamp = 1 \<rparr> 1001 0 \<lparr> receiver = 9, amount = 5 \<rparr>,
          Buy_ticket \<lparr> txn_sender = 3, current_application_address = 9, creator_address = 0, latest_timestamp = 2 \<rparr> 1002 0 \<lparr> receiver = 9, amount = 5 \<rparr>] ticketing_init) = Inr s'
     \<and> payments (tix_trace s') = [(1, 10)]
     \<and> withdraw_sales \<lparr> txn_sender = 1, current_application_address = 9, creator_address = 0, latest_timestamp = 5 \<rparr> 0 s' =
         Inr (s'\<lparr> tix_trace := tix_trace s' @ [Inner_txn (Payment 1 10 0)] \<rparr>)"
proof -
  define s where "s = run_tickets [Create_event \<lparr> txn_sender = 1, current_application_address = 9, creator_address = 0, latest_timestamp = 0 \<rparr> ''fest'' 5 2 False 100 200 ''night'',
          Buy_ticket \<lparr> txn_sender = 2, current_application_address = 9, creator_address = 0, latest_timestamp = 1 \<rparr> 1001 0 \<lparr> receiver = 9, amount = 5 \<rparr>,
          Buy_ticket \<lparr> txn_sender = 3, current_application_address = 9, creator_address = 0, latest_timestamp = 2 \<rparr> 1002 0 \<lparr> receiver = 9, amount = 5 \<rparr>] ticketing_init"
  have e: "events s 0 =
      Some \<lparr> organizer = 1, price = 5, max_tickets = 2, sold = 2, transferable = False,
             start_time = 100, end_time = 200 \<rparr>"
    and p: "payments (tix_trace s) = []"
    unfolding s_def by (simp_all add: tix_eval)
  have o: "txn_sender \<lparr> txn_sender = 1, current_application_address = 9, creator_address = 0, latest_timestamp = 5 \<rparr> =
      organizer \<lparr> organizer = 1, price = 5, max_tickets = 2, sold = 2, transferable = False,
             start_time = 100, end_time = 200 \<rparr>"
    by simp
  note spec = withdraw_sales_spec [OF e o]
  from spec have "\<exists>s'. withdraw_sales \<lparr> txn_sender = 1, current_application_address = 9, creator_address = 0, latest_timestamp = 5 \<rparr> 0 s = Inr s'" by simp
  then obtain s' where run: "withdraw_sales \<lparr> txn_sender = 1, current_application_address = 9, creator_address = 0, latest_timestamp = 5 \<rparr> 0 s = Inr s'" ..
  note eff = spec [THEN conjunct2, rule_format, OF run, simplified]
  from eff have s': "s' = s\<lparr> tix_trace := tix_trace s @ [Inner_txn (Payment 1 10 0)] \<rparr>"
    by simp
  from eff have again: "withdraw_sales \<lparr> txn_sender = 1, current_application_address = 9, creator_address = 0, latest_timestamp = 5 \<rparr> 0 s' =
         Inr (s'\<lparr> tix_trace := tix_trace s' @ [Inner_txn (Payment 1 10 0)] \<rparr>)"
    by (elim conjE) simp
  have "payments (tix_trace s') = [(1, 10)]"
    unfolding s' using p by (simp add: payments_append)
  with run again show ?thesis unfolding s_def by blast
qed

text \<open>
  The claim as stated fails for an organizer who calls before a sale: the revenue is 0,
  the assertion ``No revenue to withdraw'' rejects the call and nothing is transferred.
  It also fails where \<open>price * sold\<close> leaves the 64-bit range (two tickets at \<open>2\<^sup>6\<^sup>3\<close>): the
  multiplication fails the call.
\<close>

theorem withdraw_sales_counterexample:
  "events (run_tickets [Create_event \<lparr> txn_sender = 1, current_application_address = 9, creator_address = 0, latest_timestamp = 0 \<rparr> ''fest'' 5 10 False 100 200 ''night''] ticketing_init) 0 =
      Some \<lparr> organizer = 1, price = 5, max_tickets = 10, sold = 0, transferable = False,
             start_time = 100, end_time = 200 \<rparr>
   \<and> withdraw_sales \<lparr> txn_sender = 1, current_application_address = 9, creator_address = 0, latest_timestamp = 5 \<rparr> 0 (run_tickets [Create_event \<lparr> txn_sender = 1, current_application_address = 9, creator_address = 0, latest_timestamp = 0 \<rparr> ''fest'' 5 10 False 100 200 ''night''] ticketing_init) = Inl No_revenue_to_withdraw
   \<and> events (run_tickets [Create_event \<lparr> txn_sender = 1, current_application_address = 9, creator_address = 0, latest_timestamp = 0 \<rparr> ''gala'' 9223372036854775808 2 False 100 200 ''night'',
          Buy_ticket \<lparr> txn_sender = 2, current_application_address = 9, creator_address = 0, latest_timestamp = 1 \<rparr> 1001 0 \<lparr> receiver = 9, amount = 9223372036854775808 \<rparr>,
          Buy_ticket \<lparr> txn_sender = 3, current_application_address = 9, creator_address = 0, latest_timestamp = 2 \<rparr> 1002 0 \<lparr> receiver = 9, amount = 9223372036854775808 \<rparr>] ticketing_init) 0 =
      Some \<lparr> organizer = 1, price = 9223372036854775808, max_tickets = 2, sold = 2,
             transferable = False, start_time = 100, end_time = 200 \<rparr>
   \<and> withdraw_sales \<lparr> txn_sender = 1, current_application_address = 9, creator_address = 0, latest_timestamp = 5 \<rparr> 0 (run_tickets [Create_event \<lparr> txn_sender = 1, current_application_address = 9, creator_address = 0, latest_timestamp = 0 \<rparr> ''gala'' 9223372036854775808 2 False 100 200 ''night'',
          Buy_ticket \<lparr> txn_sender = 2, current_application_address = 9, creator_address = 0, latest_timestamp = 1 \<rparr> 1001 0 \<lparr> receiver = 9, amount = 9223372036854775808 \<rparr>,
          Buy_ticket \<lparr> txn_sender = 3, current_application_address = 9, creator_address = 0, latest_timestamp = 2 \<rparr> 1002 0 \<lparr> receiver = 9, amount = 9223372036854775808 \<rparr>] ticketing_init) = Inl Arith_overflow"
  by (simp add: tix_eval)

end
